theory Spec2Isabelle
  imports Main "HOL-Library.Word"
begin

section \<open>Values of the script\<close>

text \<open>
  The script \<^verbatim>\<open>tools/anvil_set_erc20_balance.py\<close> works on Python \<^verbatim>\<open>bytes\<close>, \<^verbatim>\<open>str\<close>,
  unbounded \<^verbatim>\<open>int\<close> and on the values \<^verbatim>\<open>json.loads\<close> returns. Bytes are 8-bit words,
  Python integers are \<^typ>\<open>int\<close>, a \<^verbatim>\<open>str\<close> is a \<^typ>\<open>string\<close> whose characters stand for the
  code points below 256, and a decoded JSON document is a \<open>jvalue\<close> (a JSON object is
  the association list of its keys, each key once; floating point numbers are left out).
\<close>

type_synonym byte = "8 word"

datatype jvalue =
    JNull
  | JBool bool
  | JNum int
  | JStr string
  | JArr "jvalue list"
  | JObj "(string \<times> jvalue) list"

text \<open>
  Exceptions are values. \<open>ValueError\<close> carries its message; \<open>RuntimeError\<close> carries the
  error member of the JSON-RPC response it reports; \<open>IOFailure\<close> stands for whatever
  \<^verbatim>\<open>urlopen\<close>, \<^verbatim>\<open>read\<close>, \<^verbatim>\<open>decode\<close> or \<^verbatim>\<open>json.loads\<close> raise. All of them are
  subclasses of Python's \<^verbatim>\<open>Exception\<close>.
\<close>

datatype exn =
    ValueError string
  | OverflowError string
  | TypeError string
  | KeyError string
  | RuntimeError jvalue
  | IOFailure string

section \<open>Built-in operations the script calls\<close>

text \<open>\<^verbatim>\<open>str.isspace\<close> on the code points below 256, which is what \<^verbatim>\<open>str.strip()\<close> removes.\<close>

definition py_isspace :: "char \<Rightarrow> bool" where
  "py_isspace c =
     (let n = (of_char c :: nat)
      in (9 \<le> n \<and> n \<le> 13) \<or> (28 \<le> n \<and> n \<le> 32) \<or> n = 133 \<or> n = 160)"

text \<open>C's ASCII white space, which \<^verbatim>\<open>bytes.fromhex\<close> skips between bytes.\<close>

definition c_isspace :: "char \<Rightarrow> bool" where
  "c_isspace c = (let n = (of_char c :: nat) in (9 \<le> n \<and> n \<le> 13) \<or> n = 32)"

text \<open>The white space \<^verbatim>\<open>int(s, 16)\<close> accepts around the number.\<close>

definition int_isspace :: "char \<Rightarrow> bool" where
  "int_isspace c =
     (let n = (of_char c :: nat) in (9 \<le> n \<and> n \<le> 13) \<or> n = 32 \<or> n = 133 \<or> n = 160)"

definition strip :: "string \<Rightarrow> string" where
  "strip h = rev (dropWhile py_isspace (rev (dropWhile py_isspace h)))"

text \<open>The value of a hexadecimal digit, in either case.\<close>

definition hexval :: "char \<Rightarrow> nat option" where
  "hexval c =
     (let n = (of_char c :: nat)
      in if 48 \<le> n \<and> n \<le> 57 then Some (n - 48)
         else if 97 \<le> n \<and> n \<le> 102 then Some (n - 87)
         else if 65 \<le> n \<and> n \<le> 70 then Some (n - 55)
         else None)"

text \<open>
  \<^verbatim>\<open>bytes.fromhex\<close>: white space is skipped before each byte, a byte is two adjacent
  hexadecimal digits, anything else raises \<^verbatim>\<open>ValueError\<close>.
\<close>

fun fromhex :: "string \<Rightarrow> exn + byte list" where
  "fromhex [] = Inr []"
| "fromhex [c] =
     (if c_isspace c then Inr []
      else Inl (ValueError ''non-hexadecimal number found in fromhex() arg''))"
| "fromhex (c # d # cs) =
     (if c_isspace c then fromhex (d # cs)
      else case (hexval c, hexval d) of
        (Some hi, Some lo) \<Rightarrow>
          (case fromhex cs of
             Inl e \<Rightarrow> Inl e
           | Inr bs \<Rightarrow> Inr (of_nat (16 * hi + lo) # bs))
      | _ \<Rightarrow> Inl (ValueError ''non-hexadecimal number found in fromhex() arg''))"

text \<open>\<^verbatim>\<open>bytes.hex()\<close>: two lower-case digits for each byte.\<close>

definition hexdigit :: "nat \<Rightarrow> char" where
  "hexdigit n = ''0123456789abcdef'' ! n"

definition bytes_hex :: "byte list \<Rightarrow> string" where
  "bytes_hex b = concat (map (\<lambda>x. [hexdigit (unat x div 16), hexdigit (unat x mod 16)]) b)"

text \<open>
  \<^verbatim>\<open>int.to_bytes(n, byteorder="big")\<close>, unsigned: \<^verbatim>\<open>OverflowError\<close> for a negative value and
  for one that needs more than \<open>n\<close> bytes.
\<close>

fun be_bytes :: "nat \<Rightarrow> int \<Rightarrow> byte list" where
  "be_bytes 0 v = []"
| "be_bytes (Suc n) v = be_bytes n (v div 256) @ [word_of_int v]"

definition to_bytes_big :: "nat \<Rightarrow> int \<Rightarrow> exn + byte list" where
  "to_bytes_big n v =
     (if v < 0 then Inl (OverflowError ''can't convert negative int to unsigned'')
      else if 256 ^ n \<le> v then Inl (OverflowError ''int too big to convert'')
      else Inr (be_bytes n v))"

text \<open>\<^verbatim>\<open>int.from_bytes(b, byteorder="big")\<close>: the unsigned value of a byte string.\<close>

definition from_bytes_big :: "byte list \<Rightarrow> int" where
  "from_bytes_big b = foldl (\<lambda>a x. a * 256 + uint x) 0 b"

text \<open>
  \<^verbatim>\<open>int(s, 16)\<close> on a \<^verbatim>\<open>str\<close>: white space around, an optional sign, an optional
  \<^verbatim>\<open>0x\<close> or \<^verbatim>\<open>0X\<close> (after which one underscore may stand), then hexadecimal digits with
  single underscores between them. On anything that is not a \<^verbatim>\<open>str\<close> it raises
  \<^verbatim>\<open>TypeError\<close>.
\<close>

fun hex_digits :: "int \<Rightarrow> bool \<Rightarrow> string \<Rightarrow> int option" where
  "hex_digits acc us [] = (if us then None else Some acc)"
| "hex_digits acc us (c # cs) =
     (if c = CHR ''_'' then (if us then None else hex_digits acc True cs)
      else case hexval c of
        None \<Rightarrow> None
      | Some d \<Rightarrow> hex_digits (acc * 16 + int d) False cs)"

definition int16_str :: "string \<Rightarrow> exn + int" where
  "int16_str s =
     (let s1 = rev (dropWhile int_isspace (rev (dropWhile int_isspace s)));
          neg = (take 1 s1 = ''-'');
          s2 = (if take 1 s1 = ''+'' \<or> take 1 s1 = ''-'' then drop 1 s1 else s1);
          s3 = (if take 2 s2 = ''0x'' \<or> take 2 s2 = ''0X''
                then (if take 1 (drop 2 s2) = ''_'' then drop 3 s2 else drop 2 s2)
                else s2)
      in if s3 = [] then Inl (ValueError ''invalid literal for int() with base 16'')
         else case hex_digits 0 True s3 of
           None \<Rightarrow> Inl (ValueError ''invalid literal for int() with base 16'')
         | Some v \<Rightarrow> Inr (if neg then - v else v))"

definition py_int16 :: "jvalue \<Rightarrow> exn + int" where
  "py_int16 x =
     (case x of
        JStr s \<Rightarrow> int16_str s
      | _ \<Rightarrow> Inl (TypeError ''int() can't convert non-string with explicit base''))"

text \<open>
  The decimal digits of an integer, and \<^verbatim>\<open>str(i)\<close> as an f-string calls it. CPython
  refuses to convert an integer of more than 4300 decimal digits (the default limit of
  \<^verbatim>\<open>sys.int_info\<close>, which the script leaves as it is) and raises \<^verbatim>\<open>ValueError\<close>.
  \<^verbatim>\<open>int(s, 16)\<close> has no such limit, and \<^verbatim>\<open>json.loads\<close> raises on a longer integer
  literal, so that a decoded JSON document holds no such integer. Writing to the standard
  streams is taken not to fail.
\<close>

fun str_nat :: "nat \<Rightarrow> string" where
  "str_nat n =
     (if n < 10 then [char_of (48 + n)]
      else str_nat (n div 10) @ [char_of (48 + n mod 10)])"

declare str_nat.simps [simp del]

definition str_int :: "int \<Rightarrow> string" where
  "str_int i = (if i < 0 then CHR ''-'' # str_nat (nat (- i)) else str_nat (nat i))"

definition str_limit :: int where
  "str_limit = 10 ^ 4300"

definition format_int :: "int \<Rightarrow> exn + string" where
  "format_int i =
     (if str_limit \<le> \<bar>i\<bar>
      then Inl (ValueError ''Exceeds the limit (4300 digits) for integer string conversion'')
      else Inr (str_int i))"

section \<open>The encoders\<close>

text \<open>
  \<^verbatim>\<open>keccak256\<close> wraps the Keccak implementation of the \<^verbatim>\<open>Crypto.Hash\<close> package, which is
  not part of the repository: every definition that hashes takes the hash function as
  its first argument \<open>kec\<close>.
\<close>

definition zpad32 :: "byte list \<Rightarrow> byte list" where
  "zpad32 b = replicate (32 - length b) 0 @ b"

definition hex_to_bytes :: "string \<Rightarrow> exn + byte list" where
  "hex_to_bytes h0 =
     (let h1 = strip h0;
          h2 = (if take 2 h1 = ''0x'' then drop 2 h1 else h1);
          h3 = (if length h2 mod 2 \<noteq> 0 then CHR ''0'' # h2 else h2)
      in fromhex h3)"

definition bytes_to_hex :: "byte list \<Rightarrow> string" where
  "bytes_to_hex b = ''0x'' @ bytes_hex b"

definition addr_to_bytes32 :: "string \<Rightarrow> exn + byte list" where
  "addr_to_bytes32 addr =
     (case hex_to_bytes addr of
        Inl e \<Rightarrow> Inl e
      | Inr b \<Rightarrow>
          if length b \<noteq> 20 then Inl (ValueError ''address must be 20 bytes'')
          else Inr (zpad32 b))"

definition int_to_bytes32 :: "int \<Rightarrow> exn + byte list" where
  "int_to_bytes32 i =
     (if i < 0 then Inl (ValueError ''slot index must be non-negative'')
      else to_bytes_big 32 i)"

definition int_to_storage_word :: "int \<Rightarrow> exn + string" where
  "int_to_storage_word v =
     (if v < 0 then Inl (ValueError ''amount must be non-negative'')
      else case to_bytes_big 32 v of
        Inl e \<Rightarrow> Inl e
      | Inr b \<Rightarrow> Inr (''0x'' @ bytes_hex b))"

text \<open>The bytes of an ASCII literal such as \<^verbatim>\<open>b"balanceOf(address)"\<close>.\<close>

definition ascii_bytes :: "string \<Rightarrow> byte list" where
  "ascii_bytes s = map (\<lambda>c. of_nat (of_char c)) s"

definition encode_balance_of :: "(byte list \<Rightarrow> byte list) \<Rightarrow> string \<Rightarrow> exn + string" where
  "encode_balance_of kec account =
     (let sel = take 4 (kec (ascii_bytes ''balanceOf(address)''))
      in case addr_to_bytes32 account of
           Inl e \<Rightarrow> Inl e
         | Inr a \<Rightarrow> Inr (bytes_to_hex (sel @ a)))"

text \<open>
  Lines 110 and 111 of \<^verbatim>\<open>main\<close>: the storage key of the account under the candidate slot
  \<open>i\<close>. The address is encoded first, then the index.
\<close>

definition storage_key :: "(byte list \<Rightarrow> byte list) \<Rightarrow> string \<Rightarrow> int \<Rightarrow> exn + string" where
  "storage_key kec account i =
     (case addr_to_bytes32 account of
        Inl e \<Rightarrow> Inl e
      | Inr a \<Rightarrow>
          (case int_to_bytes32 i of
             Inl e \<Rightarrow> Inl e
           | Inr s \<Rightarrow> Inr (bytes_to_hex (kec (a @ s)))))"

section \<open>The encodings as the specification words them\<close>

text \<open>
  Section 4.3 of the specification, word for word: the address padded on the left with
  zeros to 32 bytes, the slot index as a 32-byte big-endian integer (the byte at position
  \<open>j\<close> is the index divided by \<open>256 ^ (31 - j)\<close>), the two blocks concatenated and hashed,
  and the digest as a hexadecimal string after \<^verbatim>\<open>0x\<close>.
\<close>

definition spec_storage_key :: "(byte list \<Rightarrow> byte list) \<Rightarrow> byte list \<Rightarrow> int \<Rightarrow> string" where
  "spec_storage_key kec addr i =
     (let padded = replicate (32 - length addr) 0 @ addr;
          index = map (\<lambda>j. word_of_int (i div 256 ^ (31 - j))) [0..<32];
          digest = kec (padded @ index)
      in ''0x'' @ concat (map (\<lambda>x. [hexdigit (unat x div 16), hexdigit (unat x mod 16)]) digest))"

text \<open>
  The repository has no decoder of storage words. The round trip of section 8 reads a word
  back from its 32-byte big-endian representation: the bytes of the hexadecimal string,
  then their unsigned big-endian value.
\<close>

definition decode_storage_word :: "string \<Rightarrow> exn + int" where
  "decode_storage_word w =
     (case hex_to_bytes w of
        Inl e \<Rightarrow> Inl e
      | Inr b \<Rightarrow> Inr (from_bytes_big b))"

text \<open>
  The digits of an address argument: what is left of it without the white space around
  it and without a leading \<^verbatim>\<open>0x\<close>.
\<close>

definition hex_portion :: "string \<Rightarrow> string" where
  "hex_portion h = (let h1 = strip h in if take 2 h1 = ''0x'' then drop 2 h1 else h1)"

definition is_hex :: "char \<Rightarrow> bool" where
  "is_hex c = (case hexval c of None \<Rightarrow> False | Some d \<Rightarrow> True)"

section \<open>The JSON-RPC client\<close>

text \<open>
  The node behind the endpoint is a state machine of an arbitrary state type \<open>'n\<close>. A
  \<open>transport\<close> is what lines 54 to 61 of \<^verbatim>\<open>rpc\<close> do with it: post the payload to the URL and
  decode the body, which either raises or yields the decoded JSON document, and leaves
  the node in its next state. The \<open>world\<close> a run threads through its calls holds the node,
  the list of the requests issued so far, each with what \<^verbatim>\<open>rpc\<close> made of it, and the
  lines printed so far.
\<close>

type_synonym 'n transport = "'n \<Rightarrow> string \<Rightarrow> jvalue \<Rightarrow> (exn + jvalue) \<times> 'n"

record entry =
  e_url :: string
  e_method :: string
  e_params :: "jvalue list"
  e_result :: "exn + jvalue"

text \<open>
  A printed line: on standard output, on standard error, or on standard error with the
  text of an exception after the given prefix.
\<close>

datatype printed_line = Stdout string | Stderr string | StderrExn string exn

record 'n world =
  node :: 'n
  log :: "entry list"
  printed :: "printed_line list"

definition emit :: "printed_line \<Rightarrow> 'n world \<Rightarrow> 'n world" where
  "emit l w = w\<lparr>printed := printed w @ [l]\<rparr>"

text \<open>
  A \<^verbatim>\<open>print\<close> of an f-string that formats the integer \<open>i\<close>: the line is built from the
  digits of \<open>i\<close> and printed, or the conversion raises and nothing is printed.
\<close>

definition print_int :: "int \<Rightarrow> (string \<Rightarrow> printed_line) \<Rightarrow> 'n world \<Rightarrow> exn + 'n world" where
  "print_int i line w =
     (case format_int i of
        Inl e \<Rightarrow> Inl e
      | Inr s \<Rightarrow> Inr (emit (line s) w))"

text \<open>
  Lines 62 to 64: \<^verbatim>\<open>"error" in j\<close> and \<^verbatim>\<open>j["result"]\<close>. On a document that is not an
  object one of the two raises \<^verbatim>\<open>TypeError\<close>.
\<close>

definition rpc_result :: "jvalue \<Rightarrow> exn + jvalue" where
  "rpc_result j =
     (case j of
        JObj kvs \<Rightarrow>
          (case map_of kvs ''error'' of
             Some err \<Rightarrow> Inl (RuntimeError err)
           | None \<Rightarrow>
               (case map_of kvs ''result'' of
                  None \<Rightarrow> Inl (KeyError ''result'')
                | Some r \<Rightarrow> Inr r))
      | _ \<Rightarrow> Inl (TypeError ''not a JSON object''))"

definition rpc_payload :: "string \<Rightarrow> jvalue list \<Rightarrow> jvalue" where
  "rpc_payload method params =
     JObj [(''jsonrpc'', JStr ''2.0''), (''id'', JNum 1),
           (''method'', JStr method), (''params'', JArr params)]"

definition rpc :: "'n transport \<Rightarrow> string \<Rightarrow> string \<Rightarrow> jvalue list \<Rightarrow> 'n world
    \<Rightarrow> (exn + jvalue) \<times> 'n world" where
  "rpc post url method params w =
     (let payload = rpc_payload method params;
          (resp, n') = post (node w) url payload;
          res = (case resp of Inl e \<Rightarrow> Inl e | Inr j \<Rightarrow> rpc_result j)
      in (res, w\<lparr>node := n',
                 log := log w @ [\<lparr>e_url = url, e_method = method, e_params = params,
                                  e_result = res\<rparr>]\<rparr>))"

section \<open>The probe\<close>

text \<open>
  The command line after \<^verbatim>\<open>argparse\<close>, which has read \<^verbatim>\<open>--amount\<close> and \<^verbatim>\<open>--max-slot\<close> as
  integers: \<open>rpc_url\<close> is \<^verbatim>\<open>args.rpc\<close>. (\<^verbatim>\<open>argparse\<close> converts with \<^verbatim>\<open>int\<close>, which refuses a
  decimal literal of more than 4300 digits, so that the command line gives no longer
  amount or bound; \<^verbatim>\<open>main\<close> is modelled for every integer.) The dataclass \<^verbatim>\<open>SlotTry\<close> of
  the script is never instantiated and has no counterpart here.
\<close>

record args =
  rpc_url :: string
  token :: string
  account :: string
  amount :: int
  max_slot :: int

text \<open>
  \<^verbatim>\<open>eth_call\<close> of \<^verbatim>\<open>balanceOf\<close> and \<^verbatim>\<open>int(..., 16)\<close> of its result: lines 99 and 100, and
  again lines 116 and 117.
\<close>

definition balance_params :: "args \<Rightarrow> string \<Rightarrow> jvalue list" where
  "balance_params a call_data =
     [JObj [(''to'', JStr (token a)), (''data'', JStr call_data)], JStr ''latest'']"

definition balance_of :: "'n transport \<Rightarrow> args \<Rightarrow> string \<Rightarrow> 'n world \<Rightarrow> (exn + int) \<times> 'n world" where
  "balance_of post a call_data w =
     (case rpc post (rpc_url a) ''eth_call'' (balance_params a call_data) w of
        (Inl e, w1) \<Rightarrow> (Inl e, w1)
      | (Inr v, w1) \<Rightarrow> (py_int16 v, w1))"

text \<open>The \<^verbatim>\<open>try\<close> block of lines 113 to 117: the saved word and the balance read back.\<close>

definition probe_try :: "'n transport \<Rightarrow> args \<Rightarrow> string \<Rightarrow> string \<Rightarrow> string \<Rightarrow> 'n world
    \<Rightarrow> (exn + jvalue \<times> int) \<times> 'n world" where
  "probe_try post a call_data desired_word key w =
     (case rpc post (rpc_url a) ''eth_getStorageAt'' [JStr (token a), JStr key, JStr ''latest''] w of
        (Inl e, w1) \<Rightarrow> (Inl e, w1)
      | (Inr old_word, w1) \<Rightarrow>
          (case rpc post (rpc_url a) ''anvil_setStorageAt''
                  [JStr (token a), JStr key, JStr desired_word] w1 of
             (Inl e, w2) \<Rightarrow> (Inl e, w2)
           | (Inr _, w2) \<Rightarrow>
               (case balance_of post a call_data w2 of
                  (Inl e, w3) \<Rightarrow> (Inl e, w3)
                | (Inr after, w3) \<Rightarrow> (Inr (old_word, after), w3))))"

text \<open>
  The body of the loop for the index \<open>i\<close>, lines 110 to 133. \<open>Some r\<close> is a \<^verbatim>\<open>return r\<close>
  (or, as \<open>Inl\<close>, an exception that nothing catches); \<open>None\<close> goes on to the next index.
  The f-strings of lines 119, 123, 125 and 132 format an integer outside every \<^verbatim>\<open>try\<close>.
\<close>

definition probe_slot :: "'n transport \<Rightarrow> (byte list \<Rightarrow> byte list) \<Rightarrow> args \<Rightarrow> string \<Rightarrow> string
    \<Rightarrow> int \<Rightarrow> 'n world \<Rightarrow> (exn + int) option \<times> 'n world" where
  "probe_slot post kec a call_data desired_word i w =
     (case storage_key kec (account a) i of
        Inl e \<Rightarrow> (Some (Inl e), w)
      | Inr key \<Rightarrow>
          (case probe_try post a call_data desired_word key w of
             (Inl e, w1) \<Rightarrow>
               (case print_int i (\<lambda>s. StderrExn (''slot '' @ s @ '': rpc failed: '') e) w1 of
                  Inl e' \<Rightarrow> (Some (Inl e'), w1)
                | Inr w2 \<Rightarrow> (Some (Inr 2), w2))
           | (Inr (old_word, after), w1) \<Rightarrow>
               if after = amount a then
                 (case print_int i
                         (\<lambda>s. Stdout (''OK: found balances mapping slot index = '' @ s)) w1 of
                    Inl e' \<Rightarrow> (Some (Inl e'), w1)
                  | Inr w2 \<Rightarrow>
                      (let w3 = emit (Stdout (''storage key = '' @ key)) w2
                       in case print_int after (\<lambda>s. Stdout (''balanceOf(after) = '' @ s)) w3 of
                            Inl e' \<Rightarrow> (Some (Inl e'), w3)
                          | Inr w4 \<Rightarrow> (Some (Inr 0), w4)))
               else
                 (case rpc post (rpc_url a) ''anvil_setStorageAt''
                         [JStr (token a), JStr key, old_word] w1 of
                    (Inl e, w2) \<Rightarrow>
                      (case print_int i
                              (\<lambda>s. StderrExn (''slot '' @ s @ '': failed to restore storage: '') e)
                              w2 of
                         Inl e' \<Rightarrow> (Some (Inl e'), w2)
                       | Inr w3 \<Rightarrow> (Some (Inr 2), w3))
                  | (Inr _, w2) \<Rightarrow> (None, w2))))"

text \<open>The \<^verbatim>\<open>for\<close> loop over the indices of \<^verbatim>\<open>range(args.max_slot + 1)\<close>.\<close>

fun probe_loop :: "'n transport \<Rightarrow> (byte list \<Rightarrow> byte list) \<Rightarrow> args \<Rightarrow> string \<Rightarrow> string
    \<Rightarrow> int list \<Rightarrow> 'n world \<Rightarrow> (exn + int) option \<times> 'n world" where
  "probe_loop post kec a call_data desired_word [] w = (None, w)"
| "probe_loop post kec a call_data desired_word (i # idxs) w =
     (case probe_slot post kec a call_data desired_word i w of
        (Some r, w1) \<Rightarrow> (Some r, w1)
      | (None, w1) \<Rightarrow> probe_loop post kec a call_data desired_word idxs w1)"

text \<open>
  \<^verbatim>\<open>main\<close>, lines 91 to 136. The result is \<open>Inr\<close> of the value \<^verbatim>\<open>main\<close> returns, or \<open>Inl\<close> of
  the exception that leaves it. The \<^verbatim>\<open>print\<close> of line 105 stands after the first \<^verbatim>\<open>try\<close> and
  before the amount is encoded; the one of line 135 stands after the loop.
\<close>

definition main :: "'n transport \<Rightarrow> (byte list \<Rightarrow> byte list) \<Rightarrow> args \<Rightarrow> 'n world
    \<Rightarrow> (exn + int) \<times> 'n world" where
  "main post kec a w =
     (case encode_balance_of kec (account a) of
        Inl e \<Rightarrow> (Inl e, w)
      | Inr call_data \<Rightarrow>
          (case balance_of post a call_data w of
             (Inl e, w1) \<Rightarrow> (Inr 2, emit (StderrExn ''failed to eth_call balanceOf: '' e) w1)
           | (Inr before, w1) \<Rightarrow>
               (case print_int before (\<lambda>s. Stdout (''balanceOf(before) = '' @ s)) w1 of
                  Inl e \<Rightarrow> (Inl e, w1)
                | Inr w2 \<Rightarrow>
                    (case int_to_storage_word (amount a) of
                       Inl e \<Rightarrow> (Inl e, w2)
                     | Inr desired_word \<Rightarrow>
                         (case probe_loop post kec a call_data desired_word [0..max_slot a] w2 of
                            (Some r, w3) \<Rightarrow> (r, w3)
                          | (None, w3) \<Rightarrow>
                              (case print_int (max_slot a)
                                      (\<lambda>s. Stderr (''FAILED: could not find balances mapping slot in [0..''
                                                   @ s @ ''].'')) w3 of
                                 Inl e \<Rightarrow> (Inl e, w3)
                               | Inr w4 \<Rightarrow> (Inr 1, w4)))))))"

text \<open>A run of the program against a node: nothing issued and nothing printed yet.\<close>

definition run :: "'n transport \<Rightarrow> (byte list \<Rightarrow> byte list) \<Rightarrow> args \<Rightarrow> 'n
    \<Rightarrow> (exn + int) \<times> 'n world" where
  "run post kec a n = main post kec a \<lparr>node = n, log = [], printed = []\<rparr>"

text \<open>
  Line 140, \<^verbatim>\<open>raise SystemExit(main())\<close>: the exit status of the process is the value
  \<^verbatim>\<open>main\<close> returns, and the interpreter ends with status 1 on an exception that leaves
  \<^verbatim>\<open>main\<close>.
\<close>

definition exit_status :: "exn + int \<Rightarrow> int" where
  "exit_status r = (case r of Inl e \<Rightarrow> 1 | Inr s \<Rightarrow> s)"

section \<open>What a run leaves in the log\<close>

text \<open>
  The claims about runs are stated on the log of the finished run. An entry is a balance
  read when its method is \<^verbatim>\<open>eth_call\<close>, and a storage write when its method is
  \<^verbatim>\<open>anvil_setStorageAt\<close>. \<open>read_value\<close> is what \<^verbatim>\<open>main\<close> makes of a balance read: the
  exception of the call, or \<^verbatim>\<open>int(..., 16)\<close> of its result. A call has not failed
  (\<open>entry_ok\<close>) when \<^verbatim>\<open>rpc\<close> returned and, for a balance read, the integer could be
  read: both failures end in the same \<^verbatim>\<open>except\<close> clause.
\<close>

definition is_call :: "args \<Rightarrow> string \<Rightarrow> jvalue list \<Rightarrow> entry \<Rightarrow> bool" where
  "is_call a m ps e = (e_url e = rpc_url a \<and> e_method e = m \<and> e_params e = ps)"

definition succeeded :: "entry \<Rightarrow> bool" where
  "succeeded e = (case e_result e of Inl x \<Rightarrow> False | Inr v \<Rightarrow> True)"

definition balance_read :: "entry \<Rightarrow> bool" where
  "balance_read e = (e_method e = ''eth_call'')"

definition storage_write :: "entry \<Rightarrow> bool" where
  "storage_write e = (e_method e = ''anvil_setStorageAt'')"

definition read_value :: "entry \<Rightarrow> exn + int" where
  "read_value e = (case e_result e of Inl x \<Rightarrow> Inl x | Inr v \<Rightarrow> py_int16 v)"

definition entry_ok :: "entry \<Rightarrow> bool" where
  "entry_ok e =
     (if balance_read e then (case read_value e of Inl x \<Rightarrow> False | Inr b \<Rightarrow> True)
      else succeeded e)"

definition balance_reads :: "entry list \<Rightarrow> entry list" where
  "balance_reads es = filter balance_read es"

text \<open>
  The four calls of an index that did not match, in order: the read of the storage key,
  the write of the desired word to it, a balance read that returns another integer than
  the amount, and the write of the word the first call returned to the same key.
\<close>

definition restore_round :: "args \<Rightarrow> string \<Rightarrow> string \<Rightarrow> string \<Rightarrow> entry list \<Rightarrow> bool" where
  "restore_round a call_data desired_word key es =
     (case es of
        [g, s, v, r] \<Rightarrow>
          is_call a ''eth_getStorageAt'' [JStr (token a), JStr key, JStr ''latest''] g \<and>
          is_call a ''anvil_setStorageAt'' [JStr (token a), JStr key, JStr desired_word] s \<and>
          succeeded s \<and>
          is_call a ''eth_call'' (balance_params a call_data) v \<and>
          (case read_value v of Inl x \<Rightarrow> False | Inr b \<Rightarrow> b \<noteq> amount a) \<and>
          (case e_result g of
             Inl x \<Rightarrow> False
           | Inr old_word \<Rightarrow>
               is_call a ''anvil_setStorageAt'' [JStr (token a), JStr key, old_word] r) \<and>
          succeeded r
      | _ \<Rightarrow> False)"

text \<open>
  The three calls of the index that matched: the read, the write of the desired word, and
  a balance read that returns the amount. No call follows them.
\<close>

definition found_round :: "args \<Rightarrow> string \<Rightarrow> string \<Rightarrow> string \<Rightarrow> entry list \<Rightarrow> bool" where
  "found_round a call_data desired_word key es =
     (case es of
        [g, s, v] \<Rightarrow>
          is_call a ''eth_getStorageAt'' [JStr (token a), JStr key, JStr ''latest''] g \<and>
          succeeded g \<and>
          is_call a ''anvil_setStorageAt'' [JStr (token a), JStr key, JStr desired_word] s \<and>
          succeeded s \<and>
          is_call a ''eth_call'' (balance_params a call_data) v \<and>
          read_value v = Inr (amount a)
      | _ \<Rightarrow> False)"

text \<open>
  The calls of an index at which a call failed: at most four, the last one failed and
  the ones before it did not.
\<close>

definition failed_round :: "entry list \<Rightarrow> bool" where
  "failed_round es =
     (es \<noteq> [] \<and> length es \<le> 4 \<and> list_all entry_ok (butlast es) \<and> \<not> entry_ok (last es))"

text \<open>
  \<open>restore_rounds kec a cd dw idxs es\<close>: the entries \<open>es\<close> are the rounds of the indices
  \<open>idxs\<close>, one after the other, each at the storage key derived from its index.
\<close>

fun restore_rounds :: "(byte list \<Rightarrow> byte list) \<Rightarrow> args \<Rightarrow> string \<Rightarrow> string \<Rightarrow> int list
    \<Rightarrow> entry list \<Rightarrow> bool" where
  "restore_rounds kec a call_data desired_word [] es = (es = [])"
| "restore_rounds kec a call_data desired_word (i # idxs) es =
     (case storage_key kec (account a) i of
        Inl x \<Rightarrow> False
      | Inr key \<Rightarrow>
          restore_round a call_data desired_word key (take 4 es) \<and>
          restore_rounds kec a call_data desired_word idxs (drop 4 es))"

section \<open>Nodes that keep the token's storage\<close>



section \<open>A node and a hash for the end-to-end scenarios\<close>

text \<open>
  A development node as the scenarios of the specification need it: it keeps the words
  written to storage keys, answers \<^verbatim>\<open>eth_getStorageAt\<close> with the word at the key (zero where
  nothing was written), answers \<^verbatim>\<open>anvil_setStorageAt\<close> by storing the word, and answers
  \<^verbatim>\<open>eth_call\<close> with the word at \<open>balance_key\<close>, the storage cell of the account's balance.
  With \<open>alive = Some m\<close> it answers \<open>m\<close> requests and every later one with a JSON-RPC error
  object; with \<open>alive = None\<close> it answers every request.
\<close>

record mock =
  storage :: "(string \<times> jvalue) list"
  balance_key :: string
  alive :: "nat option"

definition zero_word :: string where
  "zero_word = ''0x'' @ replicate 64 CHR ''0''"

definition word_at :: "mock \<Rightarrow> string \<Rightarrow> jvalue" where
  "word_at n k = (case map_of (storage n) k of None \<Rightarrow> JStr zero_word | Some v \<Rightarrow> v)"

definition reply :: "jvalue \<Rightarrow> exn + jvalue" where
  "reply v = Inr (JObj [(''jsonrpc'', JStr ''2.0''), (''id'', JNum 1), (''result'', v)])"

definition reply_error :: "string \<Rightarrow> exn + jvalue" where
  "reply_error m =
     Inr (JObj [(''jsonrpc'', JStr ''2.0''), (''id'', JNum 1),
                (''error'', JObj [(''code'', JNum (- 32000)), (''message'', JStr m)])])"

definition mock_post :: "mock transport" where
  "mock_post n url payload =
     (if alive n = Some 0 then (reply_error ''node is down'', n)
      else
        (let n1 = n\<lparr>alive := map_option (\<lambda>m. m - 1) (alive n)\<rparr>
         in case payload of
              JObj [_, _, (_, JStr m), (_, JArr ps)] \<Rightarrow>
                if m = ''eth_call'' then (reply (word_at n (balance_key n)), n1)
                else if m = ''eth_getStorageAt'' then
                  (case ps of
                     [_, JStr k, _] \<Rightarrow> (reply (word_at n k), n1)
                   | _ \<Rightarrow> (reply_error ''invalid params'', n1))
                else if m = ''anvil_setStorageAt'' then
                  (case ps of
                     [_, JStr k, v] \<Rightarrow> (reply (JBool True), n1\<lparr>storage := (k, v) # storage n\<rparr>)
                   | _ \<Rightarrow> (reply_error ''invalid params'', n1))
                else (reply_error ''method not found'', n1)
            | _ \<Rightarrow> (reply_error ''invalid request'', n1)))"

text \<open>
  A stand-in for the hash in the scenarios: the last 32 bytes of its input, so that the
  storage key of a slot index is the index itself as a 32-byte word and different indices
  have different keys.
\<close>

definition stub_hash :: "byte list \<Rightarrow> byte list" where
  "stub_hash b = drop (length b - 32) b"

definition stub_key :: "nat \<Rightarrow> string" where
  "stub_key i = bytes_to_hex (be_bytes 32 (int i))"

text \<open>The account of the scenarios and their command line.\<close>

definition test_account :: string where
  "test_account = ''0x'' @ replicate 38 CHR ''0'' @ ''a1''"

definition test_url :: string where
  "test_url = ''http://127.0.0.1:8545''"

definition test_token :: string where
  "test_token = ''0x'' @ replicate 38 CHR ''0'' @ ''70''"

definition test_args :: "int \<Rightarrow> int \<Rightarrow> args" where
  "test_args amt hi =
     \<lparr>rpc_url = test_url, token = test_token, account = test_account, amount = amt,
      max_slot = hi\<rparr>"

text \<open>
  The nodes of the scenarios keep the balance at the key of the index \<open>slot\<close>.
  \<open>test_node slot m\<close> has an empty storage and answers \<open>m\<close> requests; \<open>reliable_node slot\<close>
  has an empty storage and \<open>funded_node slot word\<close> has \<open>word\<close> at the key of the balance,
  and both answer every request.
\<close>

definition test_node :: "nat \<Rightarrow> nat \<Rightarrow> mock" where
  "test_node slot m = \<lparr>storage = [], balance_key = stub_key slot, alive = Some m\<rparr>"

definition reliable_node :: "nat \<Rightarrow> mock" where
  "reliable_node slot = \<lparr>storage = [], balance_key = stub_key slot, alive = None\<rparr>"

definition funded_node :: "nat \<Rightarrow> string \<Rightarrow> mock" where
  "funded_node slot word =
     \<lparr>storage = [(stub_key slot, JStr word)], balance_key = stub_key slot, alive = None\<rparr>"

text \<open>
  What the encoders make of the scenarios' account under the stand-in hash: the call data
  of the balance read and the storage word of an amount.
\<close>

definition test_call_data :: string where
  "test_call_data = ''0x62616c61'' @ replicate 24 CHR ''0'' @ drop 2 test_account"

definition word_hex :: "int \<Rightarrow> string" where
  "word_hex v = ''0x'' @ bytes_hex (be_bytes 32 v)"

text \<open>
  A word of 3600 hexadecimal digits, which no storage cell of 32 bytes holds but a node
  may answer with, and its value, which has 4335 decimal digits.
\<close>

definition long_word :: string where
  "long_word = ''0x'' @ replicate 3600 CHR ''f''"

definition long_value :: int where
  "long_value = 256 ^ 1800 - 1"

text \<open>
  The scenarios. \<open>found_scenario\<close> is the one of section 8: slot index 3 holds the
  balance and the probe runs with \<^verbatim>\<open>--max-slot 5\<close>. In \<open>already_funded_scenario\<close> the
  account holds the desired amount before the run, and in \<open>long_balance_scenario\<close> the node
  answers the balance read with \<open>long_word\<close>. In \<open>exhausted_scenario\<close> the balance is
  at index 7 and the probe stops at 2. In \<open>down_scenario\<close> the node answers no request;
  in \<open>write_failure_scenario\<close> it stops answering at the write of index 1, in
  \<open>restore_failure_scenario\<close> at the restore of index 0. The other scenarios give the
  program an argument an encoder rejects, or a token address that is not an address.
\<close>

definition found_scenario :: "(exn + int) \<times> mock world" where
  "found_scenario = run mock_post stub_hash (test_args 1000 5) (reliable_node 3)"


definition long_balance_scenario :: "(exn + int) \<times> mock world" where
  "long_balance_scenario = run mock_post stub_hash (test_args 1000 5) (funded_node 0 long_word)"

definition exhausted_scenario :: "(exn + int) \<times> mock world" where
  "exhausted_scenario = run mock_post stub_hash (test_args 1000 2) (test_node 7 100)"

definition down_scenario :: "(exn + int) \<times> mock world" where
  "down_scenario = run mock_post stub_hash (test_args 1000 5) (test_node 3 0)"

definition write_failure_scenario :: "(exn + int) \<times> mock world" where
  "write_failure_scenario = run mock_post stub_hash (test_args 1000 5) (test_node 3 6)"

definition restore_failure_scenario :: "(exn + int) \<times> mock world" where
  "restore_failure_scenario = run mock_post stub_hash (test_args 1000 5) (test_node 3 4)"

definition negative_amount_scenario :: "(exn + int) \<times> mock world" where
  "negative_amount_scenario = run mock_post stub_hash (test_args (- 1) 5) (test_node 3 100)"

definition oversized_amount_scenario :: "(exn + int) \<times> mock world" where
  "oversized_amount_scenario = run mock_post stub_hash (test_args (2 ^ 256) 5) (test_node 3 100)"

definition short_account_args :: args where
  "short_account_args = (test_args 1000 5)\<lparr>account := ''0x1234''\<rparr>"

definition short_account_scenario :: "(exn + int) \<times> mock world" where
  "short_account_scenario = run mock_post stub_hash short_account_args (test_node 3 100)"

definition short_token_args :: args where
  "short_token_args = (test_args 1000 0)\<lparr>token := ''0x12''\<rparr>"

definition short_token_scenario :: "(exn + int) \<times> mock world" where
  "short_token_scenario = run mock_post stub_hash short_token_args (test_node 0 100)"

text \<open>An address written with 39 digits, with white space around it.\<close>

definition odd_address :: string where
  "odd_address = '' 0x'' @ replicate 38 CHR ''0'' @ ''7 ''"

section \<open>Facts about the encoders\<close>

text \<open>
  The big-endian bytes of an integer that fits have the stated length and read back as the
  integer; each of them is the quotient the specification names.
\<close>

lemma length_be_bytes [simp]: "length (be_bytes n v) = n"
  by (induction n arbitrary: v) auto

lemma from_bytes_big_snoc: "from_bytes_big (xs @ [x]) = from_bytes_big xs * 256 + uint x"
  by (simp add: from_bytes_big_def)

lemma uint_byte_of_int: "uint (word_of_int v :: byte) = v mod 256"
  by (simp add: uint_word_of_int)

lemma from_bytes_be_bytes: "0 \<le> v \<Longrightarrow> v < 256 ^ n \<Longrightarrow> from_bytes_big (be_bytes n v) = v"
proof (induction n arbitrary: v)
  case 0
  then show ?case by (simp add: from_bytes_big_def)
next
  case (Suc n)
  have lt: "v div 256 < 256 ^ n"
  proof -
    define m :: int where "m = 256 ^ n"
    have "v < 256 * m" using Suc.prems by (simp add: m_def)
    then have "v div 256 < m" by arith
    then show ?thesis by (simp add: m_def)
  qed
  have ge: "0 \<le> v div 256"
    using Suc.prems by simp
  show ?case
    using Suc.IH [OF ge lt] by (simp add: from_bytes_big_snoc uint_byte_of_int)
qed

lemma be_bytes_positional:
  "0 \<le> v \<Longrightarrow> be_bytes n v = map (\<lambda>j. word_of_int (v div 256 ^ (n - 1 - j))) [0..<n]"
proof (induction n arbitrary: v)
  case 0
  show ?case by simp
next
  case (Suc n)
  have ge: "0 \<le> v div 256" using Suc.prems by simp
  have "map (\<lambda>j. (word_of_int (v div 256 div 256 ^ (n - 1 - j)) :: byte)) [0..<n]
      = map (\<lambda>j. word_of_int (v div 256 ^ (Suc n - 1 - j))) [0..<n]"
  proof (rule map_cong [OF refl])
    fix j assume "j \<in> set [0..<n]"
    then have j: "j < n" by simp
    then have "Suc n - 1 - j = Suc (n - 1 - j)" by simp
    then show "(word_of_int (v div 256 div 256 ^ (n - 1 - j)) :: byte)
        = word_of_int (v div 256 ^ (Suc n - 1 - j))"
      by (simp add: zdiv_zmult2_eq)
  qed
  then show ?case
    using Suc.IH [OF ge] by simp
qed

text \<open>What the encoders accept and what they reject.\<close>

lemma zpad32_20: "length b = 20 \<Longrightarrow> zpad32 b = replicate 12 0 @ b"
  by (simp add: zpad32_def)

lemma int_to_bytes32_ok: "0 \<le> i \<Longrightarrow> i < 2 ^ 256 \<Longrightarrow> int_to_bytes32 i = Inr (be_bytes 32 i)"
  by (simp add: int_to_bytes32_def to_bytes_big_def)

lemma int_to_storage_word_ok:
  "0 \<le> v \<Longrightarrow> v < 2 ^ 256 \<Longrightarrow> int_to_storage_word v = Inr (''0x'' @ bytes_hex (be_bytes 32 v))"
  by (simp add: int_to_storage_word_def to_bytes_big_def)

lemma int_to_storage_word_negative:
  "v < 0 \<Longrightarrow> int_to_storage_word v = Inl (ValueError ''amount must be non-negative'')"
  by (simp add: int_to_storage_word_def)

lemma int_to_storage_word_big:
  "2 ^ 256 \<le> v \<Longrightarrow> int_to_storage_word v = Inl (OverflowError ''int too big to convert'')"
proof -
  assume b: "2 ^ 256 \<le> v"
  have "(0::int) < 2 ^ 256" by simp
  with b have "\<not> v < 0" by linarith
  moreover have "(256::int) ^ 32 = 2 ^ 256" by simp
  ultimately show ?thesis
    using b by (simp add: int_to_storage_word_def to_bytes_big_def)
qed

lemma encode_balance_of_Inl:
  "encode_balance_of kec acct = Inl e \<longleftrightarrow> addr_to_bytes32 acct = Inl e"
  by (simp add: encode_balance_of_def split: sum.splits)

lemma storage_key_Inr: "storage_key kec acct i = Inr key \<Longrightarrow> 0 \<le> i \<and> i < 2 ^ 256"
  by (auto simp: storage_key_def int_to_bytes32_def to_bytes_big_def split: sum.splits if_splits)

lemma storage_key_Inl:
  assumes "encode_balance_of kec acct = Inr cd" and "storage_key kec acct i = Inl e"
  shows "i < 0 \<or> 2 ^ 256 \<le> i"
  using assms
  by (auto simp: storage_key_def encode_balance_of_def int_to_bytes32_def to_bytes_big_def
      split: sum.splits if_splits)

text \<open>
  Hexadecimal text: a string of an even number of digits decodes to half as many bytes,
  and \<^verbatim>\<open>bytes.fromhex\<close> undoes \<^verbatim>\<open>bytes.hex\<close>, so that both are injective and a storage
  word reads back as the integer it encodes.
\<close>

lemma hexval_bound: "hexval c = Some d \<Longrightarrow> d < 16"
  by (auto simp: hexval_def Let_def split: if_splits)

lemma is_hex_not_space: "is_hex c \<Longrightarrow> \<not> c_isspace c"
  by (auto simp: is_hex_def hexval_def c_isspace_def Let_def split: if_splits)

lemma fromhex_all_hex:
  "list_all is_hex d \<Longrightarrow> even (length d) \<Longrightarrow> \<exists>b. fromhex d = Inr b \<and> length b = length d div 2"
proof (induction d rule: fromhex.induct)
  case 1
  then show ?case by simp
next
  case (2 c)
  then show ?case by simp
next
  case (3 c d cs)
  from "3.prems" have sp: "\<not> c_isspace c" by (simp add: is_hex_not_space)
  from "3.prems" obtain hi lo where hv: "hexval c = Some hi" "hexval d = Some lo"
    by (auto simp: is_hex_def split: option.splits)
  from "3.prems" have "list_all is_hex cs" "even (length cs)" by simp_all
  with "3.IH"(2) sp hv obtain b where "fromhex cs = Inr b" "length b = length cs div 2"
    by auto
  then show ?case using sp hv by simp
qed

lemma hexdigit_facts:
  "\<forall>n \<in> {0..<16}. hexval (hexdigit n) = Some n \<and> \<not> c_isspace (hexdigit n) \<and>
      \<not> py_isspace (hexdigit n)"
  by code_simp

lemma byte_split: "(of_nat (16 * (unat x div 16) + unat x mod 16) :: byte) = x"
  by simp

lemma byte_nibbles: "unat (x :: byte) div 16 < 16" "unat x mod 16 < 16"
proof -
  have "unat x < 256" using unsigned_less [of x] by simp
  then show "unat x div 16 < 16" by simp
  show "unat x mod 16 < 16" by simp
qed

lemma fromhex_bytes_hex: "fromhex (bytes_hex b) = Inr b"
proof (induction b)
  case Nil
  then show ?case by (simp add: bytes_hex_def)
next
  case (Cons x b)
  have h: "hexval (hexdigit (unat x div 16)) = Some (unat x div 16)"
    "hexval (hexdigit (unat x mod 16)) = Some (unat x mod 16)"
    "\<not> c_isspace (hexdigit (unat x div 16))"
    using hexdigit_facts byte_nibbles [of x] by auto
  have "bytes_hex (x # b) = hexdigit (unat x div 16) # hexdigit (unat x mod 16) # bytes_hex b"
    by (simp add: bytes_hex_def)
  then show ?case
    using h Cons.IH by (simp add: byte_split del: of_nat_add of_nat_mult)
qed

lemma bytes_hex_inj: "bytes_hex a = bytes_hex b \<Longrightarrow> a = b"
  by (metis fromhex_bytes_hex sum.inject(2))

lemma be_bytes_inj:
  assumes "0 \<le> u" "u < 256 ^ n" "0 \<le> v" "v < 256 ^ n" "be_bytes n u = be_bytes n v"
  shows "u = v"
  using assms from_bytes_be_bytes by metis

lemma bytes_hex_last:
  assumes "b \<noteq> []"
  shows "bytes_hex b \<noteq> [] \<and> \<not> py_isspace (last (bytes_hex b))"
proof -
  from assms obtain ys y where b: "b = ys @ [y]"
    by (metis rev_exhaust)
  have "bytes_hex b = bytes_hex ys @ [hexdigit (unat y div 16), hexdigit (unat y mod 16)]"
    by (simp add: b bytes_hex_def)
  moreover have "\<not> py_isspace (hexdigit (unat y mod 16))"
    using hexdigit_facts byte_nibbles(2) [of y] by auto
  ultimately show ?thesis by simp
qed

lemma strip_hex_word:
  assumes "b \<noteq> []"
  shows "strip (''0x'' @ bytes_hex b) = ''0x'' @ bytes_hex b"
proof -
  let ?s = "bytes_hex b"
  have z: "\<not> py_isspace CHR ''0''" by (simp add: py_isspace_def)
  from bytes_hex_last [OF assms] obtain cs c where s: "?s = cs @ [c]" and c: "\<not> py_isspace c"
    by (metis append_butlast_last_id)
  have "dropWhile py_isspace (''0x'' @ ?s) = ''0x'' @ ?s"
    using z by simp
  moreover have "dropWhile py_isspace (rev (''0x'' @ ?s)) = rev (''0x'' @ ?s)"
    using c by (simp add: s)
  ultimately show ?thesis
    by (simp add: strip_def)
qed

lemma length_bytes_hex: "length (bytes_hex b) = 2 * length b"
  by (induction b) (simp_all add: bytes_hex_def)

lemma hex_to_bytes_word:
  assumes "b \<noteq> []"
  shows "hex_to_bytes (''0x'' @ bytes_hex b) = Inr b"
  using strip_hex_word [OF assms]
  by (simp add: hex_to_bytes_def Let_def length_bytes_hex fromhex_bytes_hex)

lemma storage_word_round_trip_all:
  assumes "0 \<le> v" and "v < 2 ^ 256"
  shows "\<exists>w. int_to_storage_word v = Inr w \<and> decode_storage_word w = Inr v"
proof -
  have ne: "be_bytes 32 v \<noteq> []"
    by (metis length_be_bytes list.size(3) zero_neq_numeral)
  have w: "int_to_storage_word v = Inr (''0x'' @ bytes_hex (be_bytes 32 v))"
    using assms by (rule int_to_storage_word_ok)
  have "from_bytes_big (be_bytes 32 v) = v"
    using from_bytes_be_bytes [OF assms(1), of 32] assms(2) by simp
  then have "decode_storage_word (''0x'' @ bytes_hex (be_bytes 32 v)) = Inr v"
    unfolding decode_storage_word_def hex_to_bytes_word [OF ne] by simp
  with w show ?thesis by blast
qed

text \<open>
  An integer below \<open>2 ^ 256\<close> has fewer than 4300 digits: the f-strings print every index
  that has a storage key and every amount that encodes.
\<close>

lemma word_below_limit: "(2::int) ^ 256 < str_limit"
proof -
  have "(2::int) ^ 256 < 10 ^ 256" by (rule power_strict_mono) simp_all
  also have "(10::int) ^ 256 \<le> 10 ^ 4300" by (rule power_increasing) simp_all
  finally show ?thesis by (simp only: str_limit_def)
qed

lemma format_int_ok: "\<bar>i\<bar> < str_limit \<Longrightarrow> format_int i = Inr (str_int i)"
  by (simp add: format_int_def)

lemma format_int_word: "0 \<le> i \<Longrightarrow> i < 2 ^ 256 \<Longrightarrow> format_int i = Inr (str_int i)"
  using word_below_limit by (intro format_int_ok) linarith

lemma format_int_Inl: "format_int i = Inl e \<Longrightarrow> str_limit \<le> \<bar>i\<bar>"
  by (simp add: format_int_def split: if_splits)

lemma format_int_cases:
  obtains (long) e where "format_int i = Inl e" "str_limit \<le> \<bar>i\<bar>"
  | (short) "format_int i = Inr (str_int i)" "\<bar>i\<bar> < str_limit"
  by (cases "str_limit \<le> \<bar>i\<bar>") (simp_all add: format_int_def)


lemma print_int_word:
  "0 \<le> i \<Longrightarrow> i < 2 ^ 256 \<Longrightarrow> print_int i line w = Inr (emit (line (str_int i)) w)"
  by (simp add: print_int_def format_int_word)

lemma int_to_storage_word_Inr:
  assumes "int_to_storage_word v = Inr dw"
  shows "0 \<le> v \<and> v < 2 ^ 256 \<and> dw = ''0x'' @ bytes_hex (be_bytes 32 v)"
proof -
  have "\<not> v < 0" using assms by (auto simp: int_to_storage_word_negative)
  moreover have "\<not> 2 ^ 256 \<le> v" using assms by (auto simp: int_to_storage_word_big)
  ultimately show ?thesis using assms by (simp add: int_to_storage_word_ok)
qed


text \<open>\<^verbatim>\<open>int(..., 16)\<close> reads a word of hexadecimal digits as the value of its bytes.\<close>

lemma hexdigit_int_facts:
  "\<forall>n \<in> {0..<16}. hexdigit n \<noteq> CHR ''_'' \<and> \<not> int_isspace (hexdigit n)"
  by code_simp

lemma hex_digits_byte:
  "hex_digits acc us (hexdigit (unat x div 16) # hexdigit (unat x mod 16) # cs)
     = hex_digits (acc * 256 + uint (x :: byte)) False cs"
proof -
  have a: "unat x div 16 \<in> {0..<16}" "unat x mod 16 \<in> {0..<16}"
    using byte_nibbles [of x] by simp_all
  have h: "hexval (hexdigit (unat x div 16)) = Some (unat x div 16)"
      "hexval (hexdigit (unat x mod 16)) = Some (unat x mod 16)"
      "hexdigit (unat x div 16) \<noteq> CHR ''_''" "hexdigit (unat x mod 16) \<noteq> CHR ''_''"
    using hexdigit_facts hexdigit_int_facts a by blast+
  have "int (unat x div 16) * 16 + int (unat x mod 16) = int (unat x)"
    by presburger
  then have eq: "(acc * 16 + int (unat x div 16)) * 16 + int (unat x mod 16) = acc * 256 + uint x"
    by (simp add: algebra_simps)
  have "hex_digits acc us (hexdigit (unat x div 16) # hexdigit (unat x mod 16) # cs)
     = hex_digits ((acc * 16 + int (unat x div 16)) * 16 + int (unat x mod 16)) False cs"
    using h by simp
  then show ?thesis by (simp only: eq)
qed

lemma hex_digits_bytes_hex:
  "b \<noteq> [] \<Longrightarrow> hex_digits acc us (bytes_hex b) = Some (foldl (\<lambda>a x. a * 256 + uint x) acc b)"
proof (induction b arbitrary: acc us)
  case Nil
  then show ?case by simp
next
  case (Cons x b)
  have e: "bytes_hex (x # b) = hexdigit (unat x div 16) # hexdigit (unat x mod 16) # bytes_hex b"
    by (simp add: bytes_hex_def)
  show ?case
  proof (cases "b = []")
    case True
    then show ?thesis unfolding e hex_digits_byte by (simp add: bytes_hex_def)
  next
    case False
    then show ?thesis unfolding e hex_digits_byte using Cons.IH by simp
  qed
qed

lemma py_int16_word:
  assumes "b \<noteq> []"
  shows "py_int16 (JStr (''0x'' @ bytes_hex b)) = Inr (from_bytes_big b)"
proof -
  let ?s = "bytes_hex b"
  from assms obtain x xs where b: "b = x # xs" by (cases b) auto
  have hd: "?s = hexdigit (unat x div 16) # hexdigit (unat x mod 16) # bytes_hex xs"
    by (simp add: b bytes_hex_def)
  have nu: "hexdigit (unat x div 16) \<noteq> CHR ''_''"
    using hexdigit_int_facts byte_nibbles(1) [of x] by auto
  from assms obtain ys y where b2: "b = ys @ [y]" by (metis rev_exhaust)
  have tl: "?s = bytes_hex ys @ [hexdigit (unat y div 16), hexdigit (unat y mod 16)]"
    by (simp add: b2 bytes_hex_def)
  have ns: "\<not> int_isspace (hexdigit (unat y mod 16))"
    using hexdigit_int_facts byte_nibbles(2) [of y] by auto
  have z: "\<not> int_isspace CHR ''0''" by (simp add: int_isspace_def)
  have s1: "rev (dropWhile int_isspace (rev (dropWhile int_isspace (''0x'' @ ?s)))) = ''0x'' @ ?s"
    using z ns by (simp add: tl)
  have "int16_str (''0x'' @ ?s) = Inr (from_bytes_big b)"
    unfolding int16_str_def s1
    using nu hex_digits_bytes_hex [OF assms, of 0 True]
    by (simp add: hd Let_def from_bytes_big_def)
  then show ?thesis by (simp add: py_int16_def)
qed


lemma from_bytes_big_ones: "from_bytes_big (replicate n 255) = 256 ^ n - 1"
proof (induction n)
  case 0
  then show ?case by (simp add: from_bytes_big_def)
next
  case (Suc n)
  have "replicate (Suc n) (255 :: byte) = replicate n 255 @ [255]"
    by (simp add: replicate_append_same)
  then show ?case using Suc by (simp add: from_bytes_big_snoc)
qed

lemma bytes_hex_ones: "bytes_hex (replicate n 255) = replicate (2 * n) CHR ''f''"
proof (induction n)
  case 0
  then show ?case by (simp add: bytes_hex_def)
next
  case (Suc n)
  have "hexdigit (unat (255 :: byte) div 16) = CHR ''f''" "hexdigit (unat (255 :: byte) mod 16) = CHR ''f''"
    by code_simp+
  then show ?case using Suc by (simp add: bytes_hex_def)
qed

lemma abs_pred_bound: "a < b \<Longrightarrow> 0 \<le> a \<Longrightarrow> a \<le> \<bar>b - 1\<bar>" for a b :: int
  by linarith

section \<open>The shape of a run\<close>

text \<open>
  Every call of \<^verbatim>\<open>rpc\<close> appends one entry to the log and prints nothing. One pass of the
  loop body therefore leaves one of four traces: nothing (the key could not be derived),
  a round that restored the word, a round that found the slot, or a round that ends in a
  failed call. In the loop the amount has encoded and the index has a key, so that both
  are below \<open>2 ^ 256\<close> and the f-strings of the loop body print them.
\<close>

lemma rpc_cases:
  assumes "rpc post u m ps w = (res, w')"
  shows "log w' = log w @ [\<lparr>e_url = u, e_method = m, e_params = ps, e_result = res\<rparr>]
         \<and> printed w' = printed w"
  using assms by (auto simp: rpc_def Let_def split: prod.splits)

lemma balance_of_cases:
  assumes "balance_of post a cd w = (res, w')"
  shows "\<exists>e. log w' = log w @ [e] \<and> is_call a ''eth_call'' (balance_params a cd) e
            \<and> read_value e = res \<and> printed w' = printed w"
proof -
  obtain r0 w0 where r: "rpc post (rpc_url a) ''eth_call'' (balance_params a cd) w = (r0, w0)"
    by (cases "rpc post (rpc_url a) ''eth_call'' (balance_params a cd) w") auto
  note l = rpc_cases [OF r]
  have "w' = w0" and "res = (case r0 of Inl e \<Rightarrow> Inl e | Inr v \<Rightarrow> py_int16 v)"
    using assms r by (auto simp: balance_of_def split: sum.splits)
  then show ?thesis
    using l by (simp add: is_call_def read_value_def)
qed

lemma balance_read_is_call [simp]:
  "is_call a ''eth_call'' ps e \<Longrightarrow> balance_read e"
  "is_call a ''eth_getStorageAt'' ps e \<Longrightarrow> \<not> balance_read e"
  "is_call a ''anvil_setStorageAt'' ps e \<Longrightarrow> \<not> balance_read e"
  by (simp_all add: is_call_def balance_read_def)

lemma probe_slot_cases:
  assumes "probe_slot post kec a cd dw i w = (res, w')"
    and "int_to_storage_word (amount a) = Inr dw"
  shows "(\<exists>e. storage_key kec (account a) i = Inl e \<and> res = Some (Inl e) \<and> w' = w) \<or>
         (\<exists>key es. storage_key kec (account a) i = Inr key \<and> log w' = log w @ es \<and>
            ((res = None \<and> restore_round a cd dw key es \<and> printed w' = printed w) \<or>
             (res = Some (Inr 0) \<and> found_round a cd dw key es \<and>
              printed w' = printed w @
                [Stdout (''OK: found balances mapping slot index = '' @ str_int i),
                 Stdout (''storage key = '' @ key),
                 Stdout (''balanceOf(after) = '' @ str_int (amount a))]) \<or>
             (res = Some (Inr 2) \<and> failed_round es \<and>
              (\<exists>e. printed w' = printed w @
                 [StderrExn (''slot '' @ str_int i @
                    (if length es = 4 then '': failed to restore storage: ''
                     else '': rpc failed: '')) e]))))"
proof (cases "storage_key kec (account a) i")
  case (Inl e)
  then show ?thesis using assms(1) by (simp add: probe_slot_def)
next
  case (Inr key)
  let ?u = "rpc_url a"
  note bi = storage_key_Inr [OF Inr]
  note ba = int_to_storage_word_Inr [OF assms(2)]
  have pr: "\<And>line v. print_int i line v = Inr (emit (line (str_int i)) v)"
    "\<And>line v. print_int (amount a) line v = Inr (emit (line (str_int (amount a))) v)"
    using bi ba by (simp_all add: print_int_word)
  obtain r1 w1 where c1: "rpc post ?u ''eth_getStorageAt'' [JStr (token a), JStr key, JStr ''latest''] w = (r1, w1)"
    by (cases "rpc post ?u ''eth_getStorageAt'' [JStr (token a), JStr key, JStr ''latest''] w") auto
  note l1 = rpc_cases [OF c1]
  define g where "g = \<lparr>e_url = ?u, e_method = ''eth_getStorageAt'', e_params = [JStr (token a), JStr key, JStr ''latest''], e_result = r1\<rparr>"
  show ?thesis
  proof (cases r1)
    case (Inl e)
    then have "res = Some (Inr 2)" "w' = emit (StderrExn (''slot '' @ str_int i @ '': rpc failed: '') e) w1"
      using assms(1) Inr c1 by (auto simp: probe_slot_def probe_try_def pr)
    then show ?thesis
      using Inr l1 Inl
      by (auto simp: emit_def failed_round_def entry_ok_def balance_read_def succeeded_def is_call_def)
  next
    case old: (Inr old_word)
    obtain r2 w2 where c2: "rpc post ?u ''anvil_setStorageAt'' [JStr (token a), JStr key, JStr dw] w1 = (r2, w2)"
      by (cases "rpc post ?u ''anvil_setStorageAt'' [JStr (token a), JStr key, JStr dw] w1") auto
    note l2 = rpc_cases [OF c2]
    show ?thesis
    proof (cases r2)
      case (Inl e)
      then have "res = Some (Inr 2)" "w' = emit (StderrExn (''slot '' @ str_int i @ '': rpc failed: '') e) w2"
        using assms(1) Inr c1 c2 old by (auto simp: probe_slot_def probe_try_def pr)
      then show ?thesis
        using Inr l1 l2 Inl old
        by (auto simp: emit_def failed_round_def entry_ok_def balance_read_def succeeded_def is_call_def)
    next
      case wr: (Inr ack)
      obtain r3 w3 where c3: "balance_of post a cd w2 = (r3, w3)"
        by (cases "balance_of post a cd w2") auto
      from balance_of_cases [OF c3] obtain v where
        l3: "log w3 = log w2 @ [v]" "is_call a ''eth_call'' (balance_params a cd) v"
          "read_value v = r3" "printed w3 = printed w2"
        by blast
      show ?thesis
      proof (cases r3)
        case (Inl e)
        then have "res = Some (Inr 2)" "w' = emit (StderrExn (''slot '' @ str_int i @ '': rpc failed: '') e) w3"
          using assms(1) Inr c1 c2 c3 old wr by (auto simp: probe_slot_def probe_try_def pr)
        then show ?thesis
          using Inr l1 l2 l3 Inl old wr
          by (auto simp: emit_def failed_round_def entry_ok_def balance_read_def succeeded_def is_call_def)
      next
        case after: (Inr after)
        show ?thesis
        proof (cases "after = amount a")
          case True
          then have "res = Some (Inr 0)"
            "w' = emit (Stdout (''balanceOf(after) = '' @ str_int after))
                    (emit (Stdout (''storage key = '' @ key))
                      (emit (Stdout (''OK: found balances mapping slot index = '' @ str_int i)) w3))"
            using assms(1) Inr c1 c2 c3 old wr after by (auto simp: probe_slot_def probe_try_def pr)
          then show ?thesis
            using Inr l1 l2 l3 old wr after True
            by (auto simp: emit_def found_round_def is_call_def succeeded_def)
        next
          case False
          obtain r4 w4 where c4: "rpc post ?u ''anvil_setStorageAt'' [JStr (token a), JStr key, old_word] w3 = (r4, w4)"
            by (cases "rpc post ?u ''anvil_setStorageAt'' [JStr (token a), JStr key, old_word] w3") auto
          note l4 = rpc_cases [OF c4]
          show ?thesis
          proof (cases r4)
            case (Inl e)
            then have "res = Some (Inr 2)" "w' = emit (StderrExn (''slot '' @ str_int i @ '': failed to restore storage: '') e) w4"
              using assms(1) Inr c1 c2 c3 c4 old wr after False by (auto simp: probe_slot_def probe_try_def pr)
            then show ?thesis
              using Inr l1 l2 l3 l4 Inl old wr after
              by (auto simp: emit_def failed_round_def entry_ok_def balance_read_def succeeded_def is_call_def)
          next
            case rs: (Inr ack2)
            then have "res = None" "w' = w4"
              using assms(1) Inr c1 c2 c3 c4 old wr after False by (auto simp: probe_slot_def probe_try_def pr)
            then show ?thesis
              using Inr l1 l2 l3 l4 rs old wr after False
              by (auto simp: restore_round_def is_call_def succeeded_def)
          qed
        qed
      qed
    qed
  qed
qed

lemma restore_round_length: "restore_round a cd dw key es \<Longrightarrow> length es = 4"
  by (auto simp: restore_round_def split: list.splits)

text \<open>
  The loop, by induction on the list of indices: rounds that restored, for a prefix of the
  indices, and then the end of the list or one of the three early exits.
\<close>

lemma probe_loop_shape:
  assumes "probe_loop post kec a cd dw idxs w = (res, w')"
    and dw: "int_to_storage_word (amount a) = Inr dw"
  shows "\<exists>j rs es. j \<le> length idxs \<and> log w' = log w @ rs @ es \<and>
           restore_rounds kec a cd dw (take j idxs) rs \<and>
           ((res = None \<and> j = length idxs \<and> es = [] \<and> printed w' = printed w) \<or>
            (\<exists>e. res = Some (Inl e) \<and> j < length idxs \<and>
               storage_key kec (account a) (idxs ! j) = Inl e \<and> es = [] \<and>
               printed w' = printed w) \<or>
            (\<exists>key. res = Some (Inr 0) \<and> j < length idxs \<and>
               storage_key kec (account a) (idxs ! j) = Inr key \<and>
               found_round a cd dw key es \<and>
               printed w' = printed w @
                 [Stdout (''OK: found balances mapping slot index = '' @ str_int (idxs ! j)),
                  Stdout (''storage key = '' @ key),
                  Stdout (''balanceOf(after) = '' @ str_int (amount a))]) \<or>
            (res = Some (Inr 2) \<and> j < length idxs \<and> failed_round es \<and>
               (\<exists>e. printed w' = printed w @
                  [StderrExn (''slot '' @ str_int (idxs ! j) @
                     (if length es = 4 then '': failed to restore storage: ''
                      else '': rpc failed: '')) e])))"
  using assms(1)
proof (induction idxs arbitrary: w)
  case Nil
  then show ?case by simp
next
  case (Cons i idxs)
  obtain r1 w1 where s: "probe_slot post kec a cd dw i w = (r1, w1)"
    by (cases "probe_slot post kec a cd dw i w") auto
  from probe_slot_cases [OF s dw]
  consider
      (nokey) e where "storage_key kec (account a) i = Inl e" "r1 = Some (Inl e)" "w1 = w"
    | (miss) key es where "storage_key kec (account a) i = Inr key" "log w1 = log w @ es"
        "r1 = None" "restore_round a cd dw key es" "printed w1 = printed w"
    | (hit) key es where "storage_key kec (account a) i = Inr key" "log w1 = log w @ es"
        "r1 = Some (Inr 0)" "found_round a cd dw key es"
        "printed w1 = printed w @
           [Stdout (''OK: found balances mapping slot index = '' @ str_int i),
            Stdout (''storage key = '' @ key),
            Stdout (''balanceOf(after) = '' @ str_int (amount a))]"
    | (fail) key es e where "storage_key kec (account a) i = Inr key" "log w1 = log w @ es"
        "r1 = Some (Inr 2)" "failed_round es"
        "printed w1 = printed w @
           [StderrExn (''slot '' @ str_int i @
              (if length es = 4 then '': failed to restore storage: ''
               else '': rpc failed: '')) e]"
    by blast
  then show ?case
  proof cases
    case nokey
    then have "res = Some (Inl e)" "w' = w" using Cons.prems s by auto
    with nokey show ?thesis
      by (intro exI [of _ 0] exI [of _ "[]"]) simp
  next
    case hit
    then have "res = Some (Inr 0)" "w' = w1" using Cons.prems s by auto
    with hit show ?thesis
      by (intro exI [of _ 0] exI [of _ "[]"] exI [of _ es]) simp
  next
    case fail
    then have "res = Some (Inr 2)" "w' = w1" using Cons.prems s by auto
    with fail show ?thesis
      by (intro exI [of _ 0] exI [of _ "[]"] exI [of _ es]) auto
  next
    case miss
    then have "probe_loop post kec a cd dw idxs w1 = (res, w')"
      using Cons.prems s by simp
    from Cons.IH [OF this] obtain j rs es2 where
      j: "j \<le> length idxs" and l: "log w' = log w1 @ rs @ es2"
      and rr: "restore_rounds kec a cd dw (take j idxs) rs"
      and t: "(res = None \<and> j = length idxs \<and> es2 = [] \<and> printed w' = printed w1) \<or>
            (\<exists>e. res = Some (Inl e) \<and> j < length idxs \<and>
               storage_key kec (account a) (idxs ! j) = Inl e \<and> es2 = [] \<and>
               printed w' = printed w1) \<or>
            (\<exists>key. res = Some (Inr 0) \<and> j < length idxs \<and>
               storage_key kec (account a) (idxs ! j) = Inr key \<and>
               found_round a cd dw key es2 \<and>
               printed w' = printed w1 @
                 [Stdout (''OK: found balances mapping slot index = '' @ str_int (idxs ! j)),
                  Stdout (''storage key = '' @ key),
                  Stdout (''balanceOf(after) = '' @ str_int (amount a))]) \<or>
            (res = Some (Inr 2) \<and> j < length idxs \<and> failed_round es2 \<and>
               (\<exists>e. printed w' = printed w1 @
                  [StderrExn (''slot '' @ str_int (idxs ! j) @
                     (if length es2 = 4 then '': failed to restore storage: ''
                      else '': rpc failed: '')) e]))"
      by blast
    have len: "length es = 4" using miss(4) by (rule restore_round_length)
    have rr': "restore_rounds kec a cd dw (take (Suc j) (i # idxs)) (es @ rs)"
      using miss(1,4) rr len by simp
    have l': "log w' = log w @ (es @ rs) @ es2"
      using l miss(2) by simp
    show ?thesis
      apply (rule exI [of _ "Suc j"], rule exI [of _ "es @ rs"], rule exI [of _ es2])
      using j rr' l' t miss(5) by auto
  qed
qed

lemma take_upto_0: "j \<le> nat (hi + 1) \<Longrightarrow> take j [0..hi] = [0..int j - 1]"
proof (cases "j = 0")
  case True
  then show ?thesis by simp
next
  case False
  assume "j \<le> nat (hi + 1)"
  with False have b: "0 \<le> int j" "int j \<le> hi + 1" by auto
  show ?thesis
  proof (cases "int j = hi + 1")
    case True
    then have "int j - 1 = hi" by simp
    then show ?thesis using True by simp
  next
    case False
    with b have "int j \<le> hi" by simp
    then have "[0..hi] = [0..int j - 1] @ [int j..hi]"
      using upto_split1 [of 0 "int j" hi] by simp
    moreover have "length [0..int j - 1] = j" by simp
    ultimately show ?thesis by (metis append_eq_conv_conj)
  qed
qed

text \<open>What the rounds in a log say about its entries.\<close>

lemma restore_round_facts:
  assumes "restore_round a cd dw key es"
  shows "length es = 4 \<and> list_all entry_ok es \<and> length (balance_reads es) = 1 \<and>
         list_all (\<lambda>e. read_value e \<noteq> Inr (amount a)) (balance_reads es)"
  using assms
  by (auto simp: restore_round_def entry_ok_def is_call_def balance_read_def succeeded_def
      balance_reads_def split: list.splits sum.splits)

lemma found_round_facts:
  assumes "found_round a cd dw key es"
  shows "length es = 3 \<and> list_all entry_ok es \<and>
         (\<exists>v. balance_reads es = [v] \<and> read_value v = Inr (amount a))"
  using assms
  by (auto simp: found_round_def entry_ok_def is_call_def balance_read_def succeeded_def
      balance_reads_def split: list.splits sum.splits)

lemma restore_rounds_facts:
  assumes "restore_rounds kec a cd dw idxs rs"
  shows "length rs = 4 * length idxs \<and> list_all entry_ok rs \<and>
         length (balance_reads rs) = length idxs \<and>
         list_all (\<lambda>e. read_value e \<noteq> Inr (amount a)) (balance_reads rs) \<and>
         (\<forall>i \<in> set idxs. \<exists>key. storage_key kec (account a) i = Inr key)"
  using assms
proof (induction idxs arbitrary: rs)
  case Nil
  then show ?case by (simp add: balance_reads_def)
next
  case (Cons i idxs)
  from Cons.prems obtain key where
    key: "storage_key kec (account a) i = Inr key"
    and r1: "restore_round a cd dw key (take 4 rs)"
    and r2: "restore_rounds kec a cd dw idxs (drop 4 rs)"
    by (auto split: sum.splits)
  define xs where "xs = take 4 rs"
  define ys where "ys = drop 4 rs"
  have rs: "rs = xs @ ys" by (simp add: xs_def ys_def)
  note f1 = restore_round_facts [OF r1, folded xs_def]
  note f2 = Cons.IH [OF r2, folded ys_def]
  show ?case
    unfolding rs using f1 f2 key by (auto simp: balance_reads_def)
qed

lemma failed_round_not_ok: "failed_round es \<Longrightarrow> \<not> list_all entry_ok es"
proof -
  assume f: "failed_round es"
  then have "es \<noteq> []" "\<not> entry_ok (last es)" by (auto simp: failed_round_def)
  then show ?thesis by (metis last_in_set list_all_iff)
qed

lemma entry_ok_read:
  "is_call a ''eth_call'' ps e \<Longrightarrow> entry_ok e \<longleftrightarrow> (\<exists>b. read_value e = Inr b)"
  by (auto simp: entry_ok_def is_call_def balance_read_def split: sum.splits)

lemma balance_reads_Cons_call:
  "is_call a ''eth_call'' ps e \<Longrightarrow> balance_reads (e # es) = e # balance_reads es"
  by (simp add: balance_reads_def is_call_def balance_read_def)

lemma balance_reads_append: "balance_reads (xs @ ys) = balance_reads xs @ balance_reads ys"
  by (simp add: balance_reads_def)

lemma call_not_write: "is_call a ''eth_call'' ps e \<Longrightarrow> \<not> storage_write e"
  by (simp add: is_call_def storage_write_def)

lemma run_all_ok_cases:
  assumes "is_call a ''eth_call'' ps e0" "read_value e0 = Inr before"
    "restore_rounds kec a cd dw idxs rs"
  shows "list_all entry_ok (e0 # rs)"
  using assms restore_rounds_facts [OF assms(3)] by (simp add: entry_ok_read)


text \<open>
  The nine ways a run of the program ends, with the result, the log and the printed
  lines of each. Every claim about runs is settled by this case analysis.
\<close>

lemma run_cases [consumes 1, case_names bad_account init_failed long_balance bad_amount
    exhausted long_range bad_index found failed]:
  assumes "run post kec a n = (r, w)"
  obtains
    (bad_account) e where "encode_balance_of kec (account a) = Inl e" "r = Inl e"
      "log w = []" "printed w = []"
  | (init_failed) cd e0 x where "encode_balance_of kec (account a) = Inr cd"
      "is_call a ''eth_call'' (balance_params a cd) e0" "read_value e0 = Inl x"
      "r = Inr 2" "log w = [e0]"
      "printed w = [StderrExn ''failed to eth_call balanceOf: '' x]"
  | (long_balance) cd e0 before e where "encode_balance_of kec (account a) = Inr cd"
      "is_call a ''eth_call'' (balance_params a cd) e0" "read_value e0 = Inr before"
      "format_int before = Inl e" "r = Inl e" "log w = [e0]" "printed w = []"
  | (bad_amount) cd e0 before e where "encode_balance_of kec (account a) = Inr cd"
      "is_call a ''eth_call'' (balance_params a cd) e0" "read_value e0 = Inr before"
      "int_to_storage_word (amount a) = Inl e" "r = Inl e" "log w = [e0]"
      "printed w = [Stdout (''balanceOf(before) = '' @ str_int before)]"
      "format_int before = Inr (str_int before)"
  | (exhausted) cd e0 before dw rs where "encode_balance_of kec (account a) = Inr cd"
      "is_call a ''eth_call'' (balance_params a cd) e0" "read_value e0 = Inr before"
      "int_to_storage_word (amount a) = Inr dw" "r = Inr 1" "log w = e0 # rs"
      "restore_rounds kec a cd dw [0..max_slot a] rs"
      "printed w = [Stdout (''balanceOf(before) = '' @ str_int before),
         Stderr (''FAILED: could not find balances mapping slot in [0..''
                   @ str_int (max_slot a) @ ''].'')]"
      "format_int before = Inr (str_int before)"
      "format_int (max_slot a) = Inr (str_int (max_slot a))"
  | (long_range) cd e0 before dw e where "encode_balance_of kec (account a) = Inr cd"
      "is_call a ''eth_call'' (balance_params a cd) e0" "read_value e0 = Inr before"
      "int_to_storage_word (amount a) = Inr dw" "r = Inl e" "log w = [e0]"
      "format_int (max_slot a) = Inl e" "max_slot a \<le> - str_limit"
      "printed w = [Stdout (''balanceOf(before) = '' @ str_int before)]"
      "format_int before = Inr (str_int before)"
  | (bad_index) cd e0 before dw rs j e where "encode_balance_of kec (account a) = Inr cd"
      "is_call a ''eth_call'' (balance_params a cd) e0" "read_value e0 = Inr before"
      "int_to_storage_word (amount a) = Inr dw" "r = Inl e" "log w = e0 # rs"
      "int j \<le> max_slot a" "restore_rounds kec a cd dw [0..int j - 1] rs"
      "storage_key kec (account a) (int j) = Inl e"
      "printed w = [Stdout (''balanceOf(before) = '' @ str_int before)]"
      "format_int before = Inr (str_int before)"
  | (found) cd e0 before dw rs j key es where "encode_balance_of kec (account a) = Inr cd"
      "is_call a ''eth_call'' (balance_params a cd) e0" "read_value e0 = Inr before"
      "int_to_storage_word (amount a) = Inr dw" "r = Inr 0" "log w = e0 # rs @ es"
      "int j \<le> max_slot a" "restore_rounds kec a cd dw [0..int j - 1] rs"
      "storage_key kec (account a) (int j) = Inr key" "found_round a cd dw key es"
      "printed w = [Stdout (''balanceOf(before) = '' @ str_int before),
         Stdout (''OK: found balances mapping slot index = '' @ str_int (int j)),
         Stdout (''storage key = '' @ key),
         Stdout (''balanceOf(after) = '' @ str_int (amount a))]"
      "format_int before = Inr (str_int before)"
  | (failed) cd e0 before dw rs j es e where "encode_balance_of kec (account a) = Inr cd"
      "is_call a ''eth_call'' (balance_params a cd) e0" "read_value e0 = Inr before"
      "int_to_storage_word (amount a) = Inr dw" "r = Inr 2" "log w = e0 # rs @ es"
      "int j \<le> max_slot a" "restore_rounds kec a cd dw [0..int j - 1] rs"
      "failed_round es"
      "printed w = [Stdout (''balanceOf(before) = '' @ str_int before),
         StderrExn (''slot '' @ str_int (int j) @
           (if length es = 4 then '': failed to restore storage: ''
            else '': rpc failed: '')) e]"
      "format_int before = Inr (str_int before)"
proof (cases "encode_balance_of kec (account a)")
  case (Inl e)
  then have "r = Inl e" "w = \<lparr>node = n, log = [], printed = []\<rparr>"
    using assms by (auto simp: run_def main_def)
  with Inl show ?thesis by (intro bad_account [of e]) simp_all
next
  case cd: (Inr cd)
  let ?w0 = "\<lparr>node = n, log = [], printed = []\<rparr>"
  obtain r0 w1 where b: "balance_of post a cd ?w0 = (r0, w1)"
    by (cases "balance_of post a cd ?w0") auto
  from balance_of_cases [OF b] obtain e0 where
    e0: "log w1 = [e0]" "is_call a ''eth_call'' (balance_params a cd) e0"
      "read_value e0 = r0" "printed w1 = []"
    by auto
  show ?thesis
  proof (cases r0)
    case (Inl x)
    then have "r = Inr 2" "w = emit (StderrExn ''failed to eth_call balanceOf: '' x) w1"
      using assms cd b by (auto simp: run_def main_def)
    with cd e0 Inl show ?thesis
      by (intro init_failed [of cd e0 x]) (simp_all add: emit_def)
  next
    case before: (Inr before)
    show ?thesis
    proof (cases before rule: format_int_cases)
      case (long e)
      then have "r = Inl e" "w = w1"
        using assms cd b before by (auto simp: run_def main_def print_int_def)
      with cd e0 before long show ?thesis
        by (intro long_balance [of cd e0 before e]) simp_all
    next
      case short
      define w2 where "w2 = emit (Stdout (''balanceOf(before) = '' @ str_int before)) w1"
      have w2: "log w2 = [e0]" "printed w2 = [Stdout (''balanceOf(before) = '' @ str_int before)]"
        using e0 by (simp_all add: w2_def emit_def)
      have p2: "print_int before (\<lambda>s. Stdout (''balanceOf(before) = '' @ s)) w1 = Inr w2"
        using short by (simp add: print_int_def w2_def)
      show ?thesis
      proof (cases "int_to_storage_word (amount a)")
        case (Inl e)
        then have "r = Inl e" "w = w2"
          using assms cd b before p2 by (auto simp: run_def main_def)
        with cd e0 before Inl w2 short show ?thesis
          by (intro bad_amount [of cd e0 before e]) simp_all
      next
        case dw: (Inr dw)
        obtain res w3 where p: "probe_loop post kec a cd dw [0..max_slot a] w2 = (res, w3)"
          by (cases "probe_loop post kec a cd dw [0..max_slot a] w2") auto
        have rw: "(r, w) = (case res of
              Some r' \<Rightarrow> (r', w3)
            | None \<Rightarrow>
                (case print_int (max_slot a)
                        (\<lambda>s. Stderr (''FAILED: could not find balances mapping slot in [0..''
                                     @ s @ ''].'')) w3 of
                   Inl e \<Rightarrow> (Inl e, w3)
                 | Inr w4 \<Rightarrow> (Inr 1, w4)))"
          using assms cd b before dw p p2
          by (auto simp: run_def main_def split: option.splits)
        from probe_loop_shape [OF p dw] obtain j rs es where
          j: "j \<le> nat (max_slot a + 1)" and l: "log w3 = e0 # rs @ es"
          and rr: "restore_rounds kec a cd dw (take j [0..max_slot a]) rs"
          and t: "(res = None \<and> j = nat (max_slot a + 1) \<and> es = [] \<and> printed w3 = printed w2) \<or>
              (\<exists>e. res = Some (Inl e) \<and> j < nat (max_slot a + 1) \<and>
                 storage_key kec (account a) ([0..max_slot a] ! j) = Inl e \<and> es = [] \<and>
                 printed w3 = printed w2) \<or>
              (\<exists>key. res = Some (Inr 0) \<and> j < nat (max_slot a + 1) \<and>
                 storage_key kec (account a) ([0..max_slot a] ! j) = Inr key \<and>
                 found_round a cd dw key es \<and>
                 printed w3 = printed w2 @
                   [Stdout (''OK: found balances mapping slot index = '' @ str_int ([0..max_slot a] ! j)),
                    Stdout (''storage key = '' @ key),
                    Stdout (''balanceOf(after) = '' @ str_int (amount a))]) \<or>
              (res = Some (Inr 2) \<and> j < nat (max_slot a + 1) \<and> failed_round es \<and>
                 (\<exists>e. printed w3 = printed w2 @
                    [StderrExn (''slot '' @ str_int ([0..max_slot a] ! j) @
                       (if length es = 4 then '': failed to restore storage: ''
                        else '': rpc failed: '')) e]))"
          using w2 by auto
        have rr': "restore_rounds kec a cd dw [0..int j - 1] rs"
          using rr j by (simp add: take_upto_0)
        have nth: "j < nat (max_slot a + 1) \<Longrightarrow> [0..max_slot a] ! j = int j \<and> int j \<le> max_slot a"
          by auto
        from t consider
            (c1) "res = None" "j = nat (max_slot a + 1)" "es = []" "printed w3 = printed w2"
          | (c2) e where "res = Some (Inl e)" "j < nat (max_slot a + 1)"
              "storage_key kec (account a) ([0..max_slot a] ! j) = Inl e" "es = []"
              "printed w3 = printed w2"
          | (c3) key where "res = Some (Inr 0)" "j < nat (max_slot a + 1)"
              "storage_key kec (account a) ([0..max_slot a] ! j) = Inr key"
              "found_round a cd dw key es"
              "printed w3 = printed w2 @
                   [Stdout (''OK: found balances mapping slot index = '' @ str_int ([0..max_slot a] ! j)),
                    Stdout (''storage key = '' @ key),
                    Stdout (''balanceOf(after) = '' @ str_int (amount a))]"
          | (c4) e where "res = Some (Inr 2)" "j < nat (max_slot a + 1)" "failed_round es"
              "printed w3 = printed w2 @
                    [StderrExn (''slot '' @ str_int ([0..max_slot a] ! j) @
                       (if length es = 4 then '': failed to restore storage: ''
                        else '': rpc failed: '')) e]"
          by blast
        then show ?thesis
        proof cases
          case c1
          have full: "restore_rounds kec a cd dw [0..max_slot a] rs"
            using rr c1(2) by simp
          show ?thesis
          proof (cases "max_slot a" rule: format_int_cases)
            case (long e)
            then have "r = Inl e" "w = w3"
              using rw c1 by (auto simp: print_int_def)
            moreover have "max_slot a \<le> - str_limit"
            proof (rule ccontr)
              assume "\<not> max_slot a \<le> - str_limit"
              with long(2) have big: "str_limit \<le> max_slot a" by linarith
              have "(0::int) < 2 ^ 256" by simp
              with big word_below_limit have "0 \<le> max_slot a" by linarith
              then have "max_slot a \<in> set [0..max_slot a]" by simp
              then obtain key where "storage_key kec (account a) (max_slot a) = Inr key"
                using restore_rounds_facts [OF full] by blast
              from storage_key_Inr [OF this] big word_below_limit show False by linarith
            qed
            moreover have "rs = []"
            proof -
              have "(0::int) < 2 ^ 256" by simp
              with \<open>max_slot a \<le> - str_limit\<close> word_below_limit have "max_slot a < 0" by linarith
              then have "[0..max_slot a] = []" by simp
              with full show ?thesis by simp
            qed
            ultimately show ?thesis
              using cd e0 before dw l c1 w2 long short
              by (intro long_range [of cd e0 before dw e]) simp_all
          next
            case short2: short
            then have "r = Inr 1" "w = emit (Stderr (''FAILED: could not find balances mapping slot in [0..''
                                              @ str_int (max_slot a) @ ''].'')) w3"
              using rw c1 by (auto simp: print_int_def)
            then show ?thesis
              using cd e0 before dw l c1 w2 full short short2
              by (intro exhausted [of cd e0 before dw rs]) (simp_all add: emit_def)
          qed
        next
          case c2
          then have "r = Inl e" "w = w3" using rw by auto
          then show ?thesis
            using cd e0 before dw l c2 w2 rr' nth short
            by (intro bad_index [of cd e0 before dw e rs j]) simp_all
        next
          case c3
          then have "r = Inr 0" "w = w3" using rw by auto
          then show ?thesis
            using cd e0 before dw l c3 w2 rr' nth short
            by (intro found [of cd e0 before dw rs es j key]) simp_all
        next
          case c4
          then have "r = Inr 2" "w = w3" using rw by auto
          then show ?thesis
            using cd e0 before dw l c4 w2 rr' nth short
            by (intro failed [of cd e0 before dw rs es j e]) simp_all
        qed
      qed
    qed
  qed
qed

section \<open>The probe at a node that keeps the storage\<close>









section \<open>The scenarios, evaluated\<close>

text \<open>
  The encoders on the data of the scenarios. Under the stand-in hash the storage keys of
  different indices differ.
\<close>

lemma stub_key_eq:
  assumes "int i < 2 ^ 256" "int j < 2 ^ 256"
  shows "stub_key i = stub_key j \<longleftrightarrow> i = j"
proof
  assume "stub_key i = stub_key j"
  then have "be_bytes 32 (int i) = be_bytes 32 (int j)"
    by (simp add: stub_key_def bytes_to_hex_def bytes_hex_inj)
  from be_bytes_inj [OF _ _ _ _ this] assms show "i = j" by simp
qed simp

lemma test_encodings:
  "encode_balance_of stub_hash test_account = Inr test_call_data"
  "int_to_storage_word 1000 = Inr (word_hex 1000)"
  "int_to_storage_word (- 1) = Inl (ValueError ''amount must be non-negative'')"
  "encode_balance_of stub_hash ''0x1234'' = Inl (ValueError ''address must be 20 bytes'')"
  by code_simp+

lemma test_encoding_big:
  "int_to_storage_word 115792089237316195423570985008687907853269984665640564039457584007913129639936
     = Inl (OverflowError ''int too big to convert'')"
  using int_to_storage_word_big [of "2 ^ 256"] by simp

lemma test_keys:
  "storage_key stub_hash test_account 0 = Inr (stub_key 0)"
  "storage_key stub_hash test_account 1 = Inr (stub_key 1)"
  "storage_key stub_hash test_account 2 = Inr (stub_key 2)"
  "storage_key stub_hash test_account 3 = Inr (stub_key 3)"
  by code_simp+

lemma test_words:
  "py_int16 (JStr zero_word) = Inr 0"
  "py_int16 (JStr (word_hex 1000)) = Inr 1000"
  by code_simp+

lemma long_word_value: "py_int16 (JStr long_word) = Inr long_value"
proof -
  have lw: "long_word = ''0x'' @ bytes_hex (replicate 1800 255)"
    unfolding long_word_def bytes_hex_ones by simp
  show ?thesis
    unfolding lw long_value_def from_bytes_big_ones [symmetric]
    by (rule py_int16_word) simp
qed

lemma long_value_limit: "str_limit \<le> \<bar>long_value\<bar>"
proof -
  have e1: "(43::nat) * 100 = 4300" and e2: "(18::nat) * 100 = 1800" by simp_all
  have "(10::int) ^ 43 < 256 ^ 18" by simp
  then have "((10::int) ^ 43) ^ 100 < (256 ^ 18) ^ 100"
    by (rule power_strict_mono) simp_all
  moreover have "((10::int) ^ 43) ^ 100 = 10 ^ 4300"
    unfolding e1 [symmetric] by (rule power_mult [symmetric])
  moreover have "((256::int) ^ 18) ^ 100 = 256 ^ 1800"
    unfolding e2 [symmetric] by (rule power_mult [symmetric])
  ultimately have l: "(10::int) ^ 4300 < 256 ^ 1800" by (simp only:)
  have "(0::int) \<le> 10 ^ 4300" by (rule zero_le_power) simp
  with l show ?thesis unfolding str_limit_def long_value_def by (rule abs_pred_bound)
qed

lemma format_int_long:
  "format_int long_value
     = Inl (ValueError ''Exceeds the limit (4300 digits) for integer string conversion'')"
  using long_value_limit by (simp add: format_int_def)

lemma test_ranges:
  "[0..5::int] = [0, 1, 2, 3, 4, 5]"
  "[0..2::int] = [0, 1, 2]"
  "[0..0::int] = [0]"
  by code_simp+

lemma test_strings:
  "str_int 0 = ''0''" "str_int 1 = ''1''" "str_int 2 = ''2''" "str_int 3 = ''3''"
  "str_int 5 = ''5''" "str_int 1000 = ''1000''"
  by code_simp+

lemma test_formats:
  "format_int 0 = Inr ''0''" "format_int 1 = Inr ''1''" "format_int 2 = Inr ''2''"
  "format_int 3 = Inr ''3''" "format_int 5 = Inr ''5''" "format_int 1000 = Inr ''1000''"
  by (simp_all add: format_int_word test_strings)

lemma test_addresses:
  "hex_to_bytes test_account = Inr (replicate 19 0 @ [161])"
  "hex_to_bytes ''0x1234'' = Inr [18, 52]"
  "hex_to_bytes ''0x12'' = Inr [18]"
  by code_simp+

lemma test_args_fields:
  "rpc_url (test_args amt hi) = test_url"
  "token (test_args amt hi) = test_token"
  "account (test_args amt hi) = test_account"
  "amount (test_args amt hi) = amt"
  "max_slot (test_args amt hi) = hi"
  by (simp_all add: test_args_def)

text \<open>
  The runs are evaluated by rewriting with the definitions of the program and of the
  node; the congruence rules make the simplifier evaluate the scrutinee of a \<open>case\<close>
  before its branches, as the program does.
\<close>

lemmas run_defs = run_def main_def balance_of_def probe_slot_def probe_try_def print_int_def
  rpc_def rpc_payload_def rpc_result_def mock_post_def word_at_def reply_def reply_error_def
  emit_def test_args_def test_node_def reliable_node_def funded_node_def balance_params_def
  Let_def

lemmas log_defs = entry_ok_def balance_read_def storage_write_def read_value_def
  succeeded_def balance_reads_def

lemmas test_facts = test_encodings test_encoding_big test_keys stub_key_eq test_words
  test_ranges test_formats long_word_value format_int_long

lemmas weak_congs = if_weak_cong prod.case_cong_weak sum.case_cong_weak option.case_cong_weak
  list.case_cong_weak jvalue.case_cong_weak let_weak_cong



lemma long_balance_scenario_eval:
  "let R = long_balance_scenario
   in fst R = Inl (ValueError ''Exceeds the limit (4300 digits) for integer string conversion'') \<and>
      list_all entry_ok (log (snd R)) \<and>
      read_value (hd (log (snd R))) = Inr long_value \<and>
      list_all (\<lambda>e. read_value e \<noteq> Inr 1000) (balance_reads (tl (log (snd R)))) \<and>
      tl (log (snd R)) = [] \<and>
      map e_method (log (snd R)) = [''eth_call''] \<and>
      printed (snd R) = []"
  by (simp add: long_balance_scenario_def run_defs log_defs test_facts cong: weak_congs)

lemma exhausted_scenario_eval:
  "let R = exhausted_scenario
   in fst R = Inr 1 \<and>
      list_all entry_ok (log (snd R)) \<and>
      read_value (hd (log (snd R))) = Inr 0 \<and>
      list_all (\<lambda>e. read_value e \<noteq> Inr 1000) (balance_reads (tl (log (snd R)))) \<and>
      length (log (snd R)) = 13 \<and>
      map (word_at (node (snd R))) [stub_key 0, stub_key 1, stub_key 2] =
        [JStr zero_word, JStr zero_word, JStr zero_word]"
  by (simp add: exhausted_scenario_def run_defs log_defs test_facts cong: weak_congs)

lemma down_scenario_eval:
  "let R = down_scenario
   in fst R = Inr 2 \<and> log (snd R) \<noteq> [] \<and> \<not> entry_ok (hd (log (snd R))) \<and>
      map e_method (log (snd R)) = [''eth_call'']"
  by (simp add: down_scenario_def run_defs log_defs test_facts cong: weak_congs)

lemma write_failure_scenario_eval:
  "let R = write_failure_scenario
   in fst R = Inr 2 \<and> 6 < length (log (snd R)) \<and> \<not> entry_ok (log (snd R) ! 6) \<and>
      length (log (snd R)) = 7 \<and> e_method (log (snd R) ! 6) = ''anvil_setStorageAt''"
  by (simp add: write_failure_scenario_def run_defs log_defs test_facts cong: weak_congs)

lemma restore_failure_scenario_eval:
  "let R = restore_failure_scenario
   in fst R = Inr 2 \<and> 4 < length (log (snd R)) \<and> \<not> entry_ok (log (snd R) ! 4) \<and>
      length (log (snd R)) = 5 \<and> e_method (log (snd R) ! 4) = ''anvil_setStorageAt'' \<and>
      word_at (node (snd R)) (stub_key 0) = JStr (word_hex 1000)"
  by (simp add: restore_failure_scenario_def run_defs log_defs test_facts cong: weak_congs)


lemma oversized_amount_scenario_eval:
  "let R = oversized_amount_scenario
   in fst R = Inl (OverflowError ''int too big to convert'') \<and>
      read_value (hd (log (snd R))) = Inr 0 \<and>
      map e_method (log (snd R)) = [''eth_call''] \<and>
      map succeeded (log (snd R)) = [True]"
  by (simp add: oversized_amount_scenario_def run_defs log_defs test_facts cong: weak_congs)

lemma short_account_scenario_eval:
  "let R = short_account_scenario
   in fst R = Inl (ValueError ''address must be 20 bytes'') \<and> log (snd R) = []"
  by (simp add: short_account_scenario_def short_account_args_def run_defs log_defs test_facts
      cong: weak_congs)

lemma short_token_scenario_eval:
  "let R = short_token_scenario
   in fst R = Inr 0 \<and>
      map e_method (log (snd R)) =
        [''eth_call'', ''eth_getStorageAt'', ''anvil_setStorageAt'', ''eth_call''] \<and>
      list_all (\<lambda>e. hd (e_params e) = JStr ''0x12'' \<or>
                    hd (e_params e) = JObj [(''to'', JStr ''0x12''), (''data'', JStr test_call_data)])
        (log (snd R))"
  by (simp add: short_token_scenario_def short_token_args_def run_defs log_defs test_facts
      cong: weak_congs)

lemma scenario_runs:
  "run mock_post stub_hash (test_args 1000 5) (reliable_node 3)
     = (fst found_scenario, snd found_scenario)"
  "run mock_post stub_hash (test_args 1000 2) (test_node 7 100)
     = (fst exhausted_scenario, snd exhausted_scenario)"
  "run mock_post stub_hash (test_args 1000 5) (test_node 3 0)
     = (fst down_scenario, snd down_scenario)"
  "run mock_post stub_hash (test_args 1000 5) (test_node 3 6)
     = (fst write_failure_scenario, snd write_failure_scenario)"
  "run mock_post stub_hash (test_args 1000 5) (test_node 3 4)
     = (fst restore_failure_scenario, snd restore_failure_scenario)"
  "run mock_post stub_hash (test_args (- 1) 5) (test_node 3 100)
     = (fst negative_amount_scenario, snd negative_amount_scenario)"
  "run mock_post stub_hash (test_args (2 ^ 256) 5) (test_node 3 100)
     = (fst oversized_amount_scenario, snd oversized_amount_scenario)"
  "run mock_post stub_hash short_account_args (test_node 3 100)
     = (fst short_account_scenario, snd short_account_scenario)"
  "run mock_post stub_hash (test_args 1000 5) (funded_node 0 long_word)
     = (fst long_balance_scenario, snd long_balance_scenario)"
  by (simp_all add: found_scenario_def long_balance_scenario_def exhausted_scenario_def down_scenario_def
      write_failure_scenario_def restore_failure_scenario_def negative_amount_scenario_def
      oversized_amount_scenario_def short_account_scenario_def)

section \<open>The claims\<close>




text \<open>
  Claim C2, amended. For every account that decodes to 20 bytes and every slot index
  \<open>i\<close> with \<open>0 \<le> i < 2 ^ 256\<close>, the derived storage key is the key of the specification: the
  hash of the 64 bytes made of the address after 12 zero bytes and of the 32-byte
  big-endian encoding of \<open>i\<close>, as hexadecimal text after \<^verbatim>\<open>0x\<close>. The bound is needed: an
  index from \<open>2 ^ 256\<close> on has no 32-byte encoding and \<^verbatim>\<open>int.to_bytes\<close> raises
  \<^verbatim>\<open>OverflowError\<close>.
\<close>

theorem storage_key_derivation:
  assumes "hex_to_bytes acct = Inr b"
    and "length b = 20"
    and "0 \<le> i"
    and "i < 2 ^ 256"
  shows "storage_key kec acct i = Inr (spec_storage_key kec b i) \<and>
     storage_key kec acct i = Inr (''0x'' @ bytes_hex (kec (replicate 12 0 @ b @ be_bytes 32 i))) \<and>
     length (replicate 12 0 @ b @ be_bytes 32 i) = 64 \<and>
     from_bytes_big (be_bytes 32 i) = i \<and>
     length (spec_storage_key kec b i)
       = 2 + 2 * length (kec (replicate 12 0 @ b @ be_bytes 32 i))"
proof -
  have ad: "addr_to_bytes32 acct = Inr (replicate 12 0 @ b)"
    using assms(1,2) by (simp add: addr_to_bytes32_def zpad32_20)
  have ix: "int_to_bytes32 i = Inr (be_bytes 32 i)"
    using assms(3,4) by (rule int_to_bytes32_ok)
  have k: "storage_key kec acct i = Inr (''0x'' @ bytes_hex (kec (replicate 12 0 @ b @ be_bytes 32 i)))"
    using ad ix by (simp add: storage_key_def bytes_to_hex_def)
  have "be_bytes 32 i = map (\<lambda>j. word_of_int (i div 256 ^ (31 - j))) [0..<32]"
    using be_bytes_positional [OF assms(3), of 32] by simp
  then have s: "spec_storage_key kec b i = ''0x'' @ bytes_hex (kec (replicate 12 0 @ b @ be_bytes 32 i))"
    using assms(2) by (simp add: spec_storage_key_def bytes_hex_def Let_def)
  have v: "from_bytes_big (be_bytes 32 i) = i"
    using from_bytes_be_bytes [OF assms(3), of 32] assms(4) by simp
  have l: "length (spec_storage_key kec b i)
      = 2 + 2 * length (kec (replicate 12 0 @ b @ be_bytes 32 i))"
    unfolding s by (simp add: length_bytes_hex)
  show ?thesis
    using k s v l assms(2) by simp
qed

theorem storage_key_derivation_witness:
  "hex_to_bytes test_account = Inr (replicate 19 0 @ [161]) \<and>
   length (replicate 19 (0 :: byte) @ [161]) = 20 \<and>
   (0 :: int) \<le> 3 \<and> (3 :: int) < 2 ^ 256 \<and>
   storage_key stub_hash test_account 3
     = Inr (spec_storage_key stub_hash (replicate 19 0 @ [161]) 3) \<and>
   storage_key stub_hash test_account 3 = Inr (stub_key 3)"
proof -
  have h1: "hex_to_bytes test_account = Inr (replicate 19 0 @ [161])"
    by (rule test_addresses)
  have h2: "length (replicate 19 (0 :: byte) @ [161]) = 20" by simp
  have h3: "(0 :: int) \<le> 3" and h4: "(3 :: int) < 2 ^ 256" by simp_all
  from storage_key_derivation [OF h1 h2 h3 h4, of stub_hash] h1 h2 h3 h4 test_keys(4)
  show ?thesis by simp
qed

text \<open>
  The claim as stated, for every non-negative index, fails at the index \<open>2 ^ 256\<close>: the
  derivation raises and there is no key.
\<close>

theorem storage_key_overflow:
  "map_sum id length (hex_to_bytes test_account) = Inr 20 \<and>
   storage_key stub_hash test_account (2 ^ 256) = Inl (OverflowError ''int too big to convert'')"
  by code_simp




text \<open>
  Claim C4, amended. When the account argument decodes to a number of bytes other than
  20, \<^verbatim>\<open>addr_to_bytes32\<close> raises \<^verbatim>\<open>ValueError\<close> and so does \<^verbatim>\<open>main\<close>, before any request is
  issued and before anything is printed. The token argument is not decoded: \<^verbatim>\<open>main\<close> passes
  it to the node as it is.
\<close>

theorem short_account_rejected:
  assumes "hex_to_bytes (account a) = Inr b"
    and "length b \<noteq> 20"
    and "run post kec a n = (r, w)"
  shows "addr_to_bytes32 (account a) = Inl (ValueError ''address must be 20 bytes'') \<and>
     r = Inl (ValueError ''address must be 20 bytes'') \<and> log w = [] \<and> printed w = []"
proof -
  have ad: "addr_to_bytes32 (account a) = Inl (ValueError ''address must be 20 bytes'')"
    using assms(1,2) by (simp add: addr_to_bytes32_def)
  then have en: "encode_balance_of kec (account a) = Inl (ValueError ''address must be 20 bytes'')"
    by (simp add: encode_balance_of_Inl)
  from assms(3) show ?thesis
    by (cases rule: run_cases) (use ad en in simp_all)
qed

theorem short_account_rejected_witness:
  "hex_to_bytes (account short_account_args) = Inr [18, 52] \<and>
   length [18 :: byte, 52] \<noteq> 20 \<and>
   addr_to_bytes32 (account short_account_args) = Inl (ValueError ''address must be 20 bytes'') \<and>
   fst short_account_scenario = Inl (ValueError ''address must be 20 bytes'') \<and>
   log (snd short_account_scenario) = [] \<and>
   printed (snd short_account_scenario) = []"
proof -
  have a: "account short_account_args = ''0x1234''"
    by (simp add: short_account_args_def test_args_def)
  have h1: "hex_to_bytes (account short_account_args) = Inr [18, 52]"
    by (simp add: a test_addresses)
  have h2: "length [18 :: byte, 52] \<noteq> 20" by simp
  from short_account_rejected [OF h1 h2 scenario_runs(8)] h1 h2 show ?thesis
    by simp
qed

text \<open>
  The claim as stated, for every address argument, fails for the token: with a token
  that decodes to one byte the program issues its requests, each carrying that token, and
  returns 0.
\<close>

theorem short_token_accepted:
  "map_sum id length (hex_to_bytes (token short_token_args)) = Inr 1 \<and>
   fst short_token_scenario = Inr 0 \<and>
   map e_method (log (snd short_token_scenario)) =
     [''eth_call'', ''eth_getStorageAt'', ''anvil_setStorageAt'', ''eth_call''] \<and>
   list_all (\<lambda>e. hd (e_params e) = JStr ''0x12'' \<or>
                 hd (e_params e) = JObj [(''to'', JStr ''0x12''), (''data'', JStr test_call_data)])
     (log (snd short_token_scenario))"
proof -
  have t: "token short_token_args = ''0x12''"
    by (simp add: short_token_args_def test_args_def)
  show ?thesis
    using short_token_scenario_eval by (simp add: Let_def t test_addresses)
qed

text \<open>
  Claim C5. In every run whose first call, the initial balance read, fails (\<^verbatim>\<open>rpc\<close> raises,
  or its result is not a hexadecimal integer), \<^verbatim>\<open>main\<close> returns 2, that \<^verbatim>\<open>eth_call\<close> is the only
  request of the run, so that no storage write is issued, and the failure is printed.
\<close>

theorem initial_read_failure:
  assumes "run post kec a n = (r, w)"
    and "log w \<noteq> []"
    and "\<not> entry_ok (hd (log w))"
  shows "r = Inr 2 \<and> length (log w) = 1 \<and>
     (\<exists>cd. encode_balance_of kec (account a) = Inr cd \<and>
            is_call a ''eth_call'' (balance_params a cd) (hd (log w))) \<and>
     list_all (\<lambda>e. \<not> storage_write e) (log w) \<and>
     (\<exists>x. printed w = [StderrExn ''failed to eth_call balanceOf: '' x])"
  using assms(1)
proof (cases rule: run_cases)
  case (bad_account e)
  then show ?thesis using assms(2) by simp
next
  case (init_failed cd e0 x)
  then show ?thesis by (simp add: call_not_write)
qed (use assms(3) in \<open>simp_all add: entry_ok_read\<close>)

theorem initial_read_failure_witness:
  "log (snd down_scenario) \<noteq> [] \<and>
   \<not> entry_ok (hd (log (snd down_scenario))) \<and>
   fst down_scenario = Inr 2 \<and>
   length (log (snd down_scenario)) = 1 \<and>
   is_call (test_args 1000 5) ''eth_call'' (balance_params (test_args 1000 5) test_call_data)
     (hd (log (snd down_scenario))) \<and>
   list_all (\<lambda>e. \<not> storage_write e) (log (snd down_scenario)) \<and>
   (\<exists>x. printed (snd down_scenario) = [StderrExn ''failed to eth_call balanceOf: '' x])"
proof -
  note ev = down_scenario_eval [unfolded Let_def]
  have h1: "log (snd down_scenario) \<noteq> []"
    and h2: "\<not> entry_ok (hd (log (snd down_scenario)))"
    using ev by simp_all
  from initial_read_failure [OF scenario_runs(3) h1 h2] h1 h2 show ?thesis
    by (auto simp: test_args_fields test_encodings)
qed

text \<open>
  Claim C6. In every run, a call that fails is the last request of the run and \<^verbatim>\<open>main\<close>
  returns 2: nothing is retried and no further index is probed. Every call before it
  succeeded. The failed call number \<open>j\<close> (counted from 0, the initial read) belongs to the
  index \<open>(j - 1) div 4\<close>, and the message names that index and tells a failed restore, the
  fourth call of an index, from a failed read, write or balance read.
\<close>

theorem failed_call_aborts:
  assumes "run post kec a n = (r, w)"
    and "j < length (log w)"
    and "\<not> entry_ok (log w ! j)"
  shows "r = Inr 2 \<and> Suc j = length (log w) \<and> list_all entry_ok (butlast (log w)) \<and>
     (\<exists>x. last (printed w) =
        StderrExn
          (if j = 0 then ''failed to eth_call balanceOf: ''
           else ''slot '' @ str_int (int ((j - 1) div 4)) @
                (if j mod 4 = 0 then '': failed to restore storage: ''
                 else '': rpc failed: '')) x)"
  using assms(1)
proof (cases rule: run_cases)
  case (bad_account e)
  then show ?thesis using assms(2) by simp
next
  case (init_failed cd e0 x)
  then show ?thesis using assms(2) by simp
next
  case (long_balance cd e0 before e)
  then show ?thesis using assms(2,3) by (simp add: entry_ok_read)
next
  case (bad_amount cd e0 before e)
  then show ?thesis using assms(2,3) by (simp add: entry_ok_read)
next
  case (exhausted cd e0 before dw rs)
  from run_all_ok_cases [OF exhausted(2,3,7)] have "list_all entry_ok (log w)"
    using exhausted(6) by simp
  then show ?thesis using assms(2,3) by (simp add: list_all_length)
next
  case (long_range cd e0 before dw e)
  then show ?thesis using assms(2,3) by (simp add: entry_ok_read)
next
  case (bad_index cd e0 before dw rs j' e)
  from run_all_ok_cases [OF bad_index(2,3,8)] have "list_all entry_ok (log w)"
    using bad_index(6) by simp
  then show ?thesis using assms(2,3) by (simp add: list_all_length)
next
  case (found cd e0 before dw rs j' key es)
  from run_all_ok_cases [OF found(2,3,8)] found_round_facts [OF found(10)]
  have "list_all entry_ok (log w)"
    using found(6) by simp
  then show ?thesis using assms(2,3) by (simp add: list_all_length)
next
  case (failed cd e0 before dw rs j' es e)
  have es: "es \<noteq> []" "length es \<le> 4" "list_all entry_ok (butlast es)"
    using failed(9) by (simp_all add: failed_round_def)
  have len: "length rs = 4 * j'"
    using restore_rounds_facts [OF failed(8)] by simp
  have bl: "butlast (log w) = e0 # rs @ butlast es"
    using failed(6) es(1) by (simp add: butlast_append)
  have ok: "list_all entry_ok (butlast (log w))"
    using run_all_ok_cases [OF failed(2,3,8)] es(3) by (simp add: bl)
  have "\<not> j < length (butlast (log w))"
  proof
    assume "j < length (butlast (log w))"
    then have "entry_ok (butlast (log w) ! j)"
      using ok by (simp add: list_all_length)
    then show False
      using assms(3) \<open>j < length (butlast (log w))\<close> by (simp add: nth_butlast)
  qed
  then have j: "Suc j = length (log w)"
    using assms(2) by simp
  then have jv: "j = 4 * j' + length es"
    using failed(6) len by simp
  have l1: "1 \<le> length es" using es(1) by (cases es) simp_all
  have d: "(j - 1) div 4 = j'" using jv l1 es(2) by simp
  have m: "j mod 4 = 0 \<longleftrightarrow> length es = 4" using jv l1 es(2) by presburger
  have nz: "j \<noteq> 0" using jv es(1) by simp
  show ?thesis
    using failed(5,10) j ok d m nz by simp
qed

text \<open>
  Two nodes that stop answering: one at the write of index 1, the other at the restore
  of index 0, which leaves the desired word at the key of index 0.
\<close>

theorem failed_call_aborts_witness:
  "6 < length (log (snd write_failure_scenario)) \<and>
   \<not> entry_ok (log (snd write_failure_scenario) ! 6) \<and>
   e_method (log (snd write_failure_scenario) ! 6) = ''anvil_setStorageAt'' \<and>
   fst write_failure_scenario = Inr 2 \<and>
   length (log (snd write_failure_scenario)) = 7 \<and>
   (\<exists>x. last (printed (snd write_failure_scenario)) = StderrExn ''slot 1: rpc failed: '' x) \<and>
   4 < length (log (snd restore_failure_scenario)) \<and>
   \<not> entry_ok (log (snd restore_failure_scenario) ! 4) \<and>
   fst restore_failure_scenario = Inr 2 \<and>
   length (log (snd restore_failure_scenario)) = 5 \<and>
   (\<exists>x. last (printed (snd restore_failure_scenario))
          = StderrExn ''slot 0: failed to restore storage: '' x) \<and>
   word_at (node (snd restore_failure_scenario)) (stub_key 0) = JStr (word_hex 1000)"
proof -
  note ev1 = write_failure_scenario_eval [unfolded Let_def]
  note ev2 = restore_failure_scenario_eval [unfolded Let_def]
  have a1: "6 < length (log (snd write_failure_scenario))"
    and a2: "\<not> entry_ok (log (snd write_failure_scenario) ! 6)"
    using ev1 by simp_all
  have b1: "4 < length (log (snd restore_failure_scenario))"
    and b2: "\<not> entry_ok (log (snd restore_failure_scenario) ! 4)"
    using ev2 by simp_all
  have n: "(6 - 1) div 4 = (1::nat)" "(4 - 1) div 4 = (0::nat)" "\<not> (6 :: nat) mod 4 = 0"
    "(4 :: nat) mod 4 = 0"
    by simp_all
  from failed_call_aborts [OF scenario_runs(4) a1 a2]
  have c1: "fst write_failure_scenario = Inr 2"
    "\<exists>x. last (printed (snd write_failure_scenario)) = StderrExn ''slot 1: rpc failed: '' x"
    by (simp_all add: n test_strings)
  from failed_call_aborts [OF scenario_runs(5) b1 b2]
  have c2: "fst restore_failure_scenario = Inr 2"
    "\<exists>x. last (printed (snd restore_failure_scenario))
          = StderrExn ''slot 0: failed to restore storage: '' x"
    by (simp_all add: n test_strings)
  show ?thesis
    using a1 a2 b1 b2 c1 c2 ev1 ev2 by simp
qed

text \<open>
  Claim C7. In every run in which no RPC call fails and no balance read after the initial
  one returns the desired amount, the exit status of the process is 1. When the account
  encodes, the log starts with the initial balance read. If the balance has more than
  4300 digits the \<^verbatim>\<open>print\<close> of line 105 raises, and if the amount does not encode the
  encoder raises: in both cases there is no other request and no index is probed.
  Otherwise the log after the initial read consists of the rounds of the indices from 0
  to \<^verbatim>\<open>max_slot\<close> (to \<open>2 ^ 256 - 1\<close> if \<^verbatim>\<open>max_slot\<close> is larger: the next index cannot be
  encoded), in increasing order, each with the write of the saved word back to the key of
  its index before the next index; and when \<^verbatim>\<open>max_slot\<close> is below \<open>2 ^ 256\<close> and has at most
  4300 digits, \<^verbatim>\<open>main\<close> returns 1 after printing the message of exhaustion.
\<close>

theorem exhausted_run:
  assumes "run post kec a n = (r, w)"
    and "list_all entry_ok (log w)"
    and "list_all (\<lambda>e. read_value e \<noteq> Inr (amount a)) (balance_reads (tl (log w)))"
  shows "exit_status r = 1 \<and>
     (case encode_balance_of kec (account a) of
        Inl e \<Rightarrow> r = Inl e \<and> log w = []
      | Inr cd \<Rightarrow>
          is_call a ''eth_call'' (balance_params a cd) (hd (log w)) \<and>
          (\<exists>before. read_value (hd (log w)) = Inr before \<and>
             (case format_int before of
                Inl e \<Rightarrow> r = Inl e \<and> tl (log w) = []
              | Inr s \<Rightarrow>
                  (case int_to_storage_word (amount a) of
                     Inl e \<Rightarrow> r = Inl e \<and> tl (log w) = []
                   | Inr dw \<Rightarrow>
                       restore_rounds kec a cd dw [0..min (max_slot a) (2 ^ 256 - 1)]
                         (tl (log w)) \<and>
                       (max_slot a < 2 ^ 256 \<and> - str_limit < max_slot a \<longrightarrow>
                          r = Inr 1 \<and>
                          last (printed w) =
                            Stderr (''FAILED: could not find balances mapping slot in [0..''
                                    @ str_int (max_slot a) @ ''].''))))))"
  using assms(1)
proof (cases rule: run_cases)
  case (bad_account e)
  then show ?thesis by (simp add: exit_status_def)
next
  case (init_failed cd e0 x)
  then show ?thesis using assms(2) by (simp add: entry_ok_read)
next
  case (long_balance cd e0 before e)
  then show ?thesis by (simp add: exit_status_def)
next
  case (bad_amount cd e0 before e)
  then show ?thesis by (simp add: exit_status_def)
next
  case (exhausted cd e0 before dw rs)
  note f = restore_rounds_facts [OF exhausted(7)]
  have "max_slot a < 2 ^ 256"
  proof (rule ccontr)
    assume "\<not> max_slot a < 2 ^ 256"
    then have "(2 ^ 256 :: int) \<in> set [0..max_slot a]" by simp
    then obtain key where "storage_key kec (account a) (2 ^ 256) = Inr key"
      using f by blast
    from storage_key_Inr [OF this] show False by simp
  qed
  then have "min (max_slot a) (2 ^ 256 - 1) = max_slot a" by simp
  then show ?thesis
    using exhausted by (simp add: exit_status_def)
next
  case (long_range cd e0 before dw e)
  have "(0::int) < 2 ^ 256" by simp
  with long_range(8) word_below_limit have "max_slot a < 0" by linarith
  then have "[0..min (max_slot a) (2 ^ 256 - 1)] = []" by simp
  then show ?thesis
    using long_range by (simp add: exit_status_def)
next
  case (bad_index cd e0 before dw rs j e)
  note f = restore_rounds_facts [OF bad_index(8)]
  from storage_key_Inl [OF bad_index(1,9)] have ge: "2 ^ 256 \<le> int j" by simp
  have "\<not> 2 ^ 256 < int j"
  proof
    assume "2 ^ 256 < int j"
    then have "(2 ^ 256 :: int) \<in> set [0..int j - 1]" by simp
    then obtain key where "storage_key kec (account a) (2 ^ 256) = Inr key"
      using f by blast
    from storage_key_Inr [OF this] show False by simp
  qed
  with ge have j: "int j = 2 ^ 256" by simp
  then have "min (max_slot a) (2 ^ 256 - 1) = int j - 1" "\<not> max_slot a < 2 ^ 256"
    using bad_index(7) by simp_all
  then show ?thesis
    using bad_index by (simp add: exit_status_def)
next
  case (found cd e0 before dw rs j key es)
  from found_round_facts [OF found(10)] obtain v where
    "balance_reads es = [v]" "read_value v = Inr (amount a)"
    by blast
  then show ?thesis
    using assms(3) found(6) by (simp add: balance_reads_append)
next
  case (failed cd e0 before dw rs j es e)
  then show ?thesis
    using assms(2) failed_round_not_ok [OF failed(9)] by simp
qed

text \<open>
  A node whose balance lives at index 7, probed up to index 2: the three keys end with
  the words they had. And the node that answers the balance read with a word of 3600
  digits: the run ends with status 1 after the initial read, with no index probed.
\<close>

theorem exhausted_run_witness:
  "list_all entry_ok (log (snd exhausted_scenario)) \<and>
   list_all (\<lambda>e. read_value e \<noteq> Inr (amount (test_args 1000 2)))
     (balance_reads (tl (log (snd exhausted_scenario)))) \<and>
   exit_status (fst exhausted_scenario) = 1 \<and>
   fst exhausted_scenario = Inr 1 \<and>
   restore_rounds stub_hash (test_args 1000 2) test_call_data (word_hex 1000) [0..2]
     (tl (log (snd exhausted_scenario))) \<and>
   last (printed (snd exhausted_scenario))
     = Stderr ''FAILED: could not find balances mapping slot in [0..2].'' \<and>
   map (word_at (node (snd exhausted_scenario))) [stub_key 0, stub_key 1, stub_key 2] =
     [JStr zero_word, JStr zero_word, JStr zero_word] \<and>
   list_all entry_ok (log (snd long_balance_scenario)) \<and>
   list_all (\<lambda>e. read_value e \<noteq> Inr (amount (test_args 1000 5)))
     (balance_reads (tl (log (snd long_balance_scenario)))) \<and>
   read_value (hd (log (snd long_balance_scenario))) = Inr long_value \<and>
   exit_status (fst long_balance_scenario) = 1 \<and>
   fst long_balance_scenario
     = Inl (ValueError ''Exceeds the limit (4300 digits) for integer string conversion'') \<and>
   tl (log (snd long_balance_scenario)) = []"
proof -
  note ev = exhausted_scenario_eval [unfolded Let_def]
  note ev2 = long_balance_scenario_eval [unfolded Let_def]
  have h1: "list_all entry_ok (log (snd exhausted_scenario))"
    and h2: "list_all (\<lambda>e. read_value e \<noteq> Inr (amount (test_args 1000 2)))
       (balance_reads (tl (log (snd exhausted_scenario))))"
    using ev by (simp_all add: test_args_fields)
  have g1: "list_all entry_ok (log (snd long_balance_scenario))"
    and g2: "list_all (\<lambda>e. read_value e \<noteq> Inr (amount (test_args 1000 5)))
       (balance_reads (tl (log (snd long_balance_scenario))))"
    using ev2 by (simp_all add: test_args_fields balance_reads_def)
  have m: "min 2 (2 ^ 256 - 1) = (2::int)" by simp
  have lim: "- str_limit < 2" using word_below_limit by simp
  have b0: "read_value (hd (log (snd exhausted_scenario))) = Inr 0"
    using ev by simp
  have c1: "restore_rounds stub_hash (test_args 1000 2) test_call_data (word_hex 1000) [0..2]
            (tl (log (snd exhausted_scenario))) \<and>
          fst exhausted_scenario = Inr 1 \<and>
          last (printed (snd exhausted_scenario))
            = Stderr ''FAILED: could not find balances mapping slot in [0..2].''"
    using exhausted_run [OF scenario_runs(2) h1 h2] b0
    by (auto simp: test_args_fields test_encodings test_formats m lim test_strings)
  from exhausted_run [OF scenario_runs(9) g1 g2]
  have c2: "exit_status (fst long_balance_scenario) = 1"
    by simp
  show ?thesis
    using h1 h2 g1 g2 c1 c2 ev ev2 by (simp add: exit_status_def)
qed

text \<open>
  Claim C8. The amounts 0 and \<open>2 ^ 256 - 1\<close> encode as the storage words of 64 zeros and of
  64 digits \<^verbatim>\<open>f\<close>; each word decodes to 32 bytes whose big-endian value is the amount, and
  \<^verbatim>\<open>int(..., 16)\<close>, with which \<^verbatim>\<open>main\<close> reads balances, gives the amount as well. (The lemma
  \<open>storage_word_round_trip_all\<close> above is the round trip for every amount that fits.)
\<close>

theorem storage_word_round_trip:
  "int_to_storage_word 0 = Inr (''0x'' @ replicate 64 CHR ''0'') \<and>
   decode_storage_word (''0x'' @ replicate 64 CHR ''0'') = Inr 0 \<and>
   py_int16 (JStr (''0x'' @ replicate 64 CHR ''0'')) = Inr 0 \<and>
   int_to_storage_word (2 ^ 256 - 1) = Inr (''0x'' @ replicate 64 CHR ''f'') \<and>
   decode_storage_word (''0x'' @ replicate 64 CHR ''f'') = Inr (2 ^ 256 - 1) \<and>
   py_int16 (JStr (''0x'' @ replicate 64 CHR ''f'')) = Inr (2 ^ 256 - 1) \<and>
   map_sum id length (hex_to_bytes (''0x'' @ replicate 64 CHR ''f'')) = Inr 32"
  by code_simp

text \<open>
  Claim C9. When the digits of an address argument are odd in number, \<^verbatim>\<open>hex_to_bytes\<close>
  decodes them with one \<^verbatim>\<open>0\<close> before them. An argument of 39 hexadecimal digits therefore
  decodes to 20 bytes, the first below 16, and \<^verbatim>\<open>addr_to_bytes32\<close> and
  \<^verbatim>\<open>encode_balance_of\<close> accept it.
\<close>

theorem odd_length_address:
  "(odd (length (hex_portion h)) \<longrightarrow> hex_to_bytes h = fromhex (CHR ''0'' # hex_portion h)) \<and>
   (length (hex_portion h) = 39 \<and> list_all is_hex (hex_portion h) \<longrightarrow>
      (\<exists>b. hex_to_bytes h = Inr b \<and> length b = 20 \<and> unat (hd b) < 16 \<and>
           addr_to_bytes32 h = Inr (replicate 12 0 @ b) \<and>
           encode_balance_of kec h =
             Inr (bytes_to_hex (take 4 (kec (ascii_bytes ''balanceOf(address)''))
                                @ replicate 12 0 @ b))))"
proof (intro conjI impI)
  assume "odd (length (hex_portion h))"
  then show "hex_to_bytes h = fromhex (CHR ''0'' # hex_portion h)"
    by (simp add: hex_to_bytes_def hex_portion_def Let_def odd_iff_mod_2_eq_one)
next
  assume a: "length (hex_portion h) = 39 \<and> list_all is_hex (hex_portion h)"
  then have od: "odd (length (hex_portion h))" by simp
  then have h: "hex_to_bytes h = fromhex (CHR ''0'' # hex_portion h)"
    by (simp add: hex_to_bytes_def hex_portion_def Let_def odd_iff_mod_2_eq_one)
  from a obtain x rest where p: "hex_portion h = x # rest"
    by (cases "hex_portion h") auto
  have z: "is_hex CHR ''0''" "hexval CHR ''0'' = Some 0" "\<not> c_isspace CHR ''0''"
    by (simp_all add: is_hex_def hexval_def c_isspace_def)
  from a p obtain lo where lo: "hexval x = Some lo"
    by (auto simp: is_hex_def split: option.splits)
  from a p have "list_all is_hex rest" "even (length rest)" by auto
  from fromhex_all_hex [OF this] obtain bs where
    bs: "fromhex rest = Inr bs" "length bs = length rest div 2"
    by blast
  define b where "b = (of_nat lo :: byte) # bs"
  have fb: "fromhex (CHR ''0'' # hex_portion h) = Inr b"
    using p z lo bs by (simp add: b_def)
  have lb: "length b = 20"
    using a p bs by (simp add: b_def)
  have "lo < 16" using lo by (rule hexval_bound)
  then have hb: "unat (hd b) < 16"
    by (simp add: b_def unat_of_nat)
  have ad: "addr_to_bytes32 h = Inr (replicate 12 0 @ b)"
    using h fb lb by (simp add: addr_to_bytes32_def zpad32_20)
  show "\<exists>b. hex_to_bytes h = Inr b \<and> length b = 20 \<and> unat (hd b) < 16 \<and>
           addr_to_bytes32 h = Inr (replicate 12 0 @ b) \<and>
           encode_balance_of kec h =
             Inr (bytes_to_hex (take 4 (kec (ascii_bytes ''balanceOf(address)''))
                                @ replicate 12 0 @ b))"
    using h fb lb hb ad by (intro exI [of _ b]) (simp add: encode_balance_of_def)
qed

theorem odd_length_address_witness:
  "odd (length (hex_portion odd_address)) \<and>
   length (hex_portion odd_address) = 39 \<and>
   list_all is_hex (hex_portion odd_address) \<and>
   hex_to_bytes odd_address = fromhex (CHR ''0'' # hex_portion odd_address) \<and>
   (\<exists>b. hex_to_bytes odd_address = Inr b \<and> length b = 20 \<and> unat (hd b) < 16 \<and>
        addr_to_bytes32 odd_address = Inr (replicate 12 0 @ b))"
proof -
  have h: "odd (length (hex_portion odd_address))"
    "length (hex_portion odd_address) = 39 \<and> list_all is_hex (hex_portion odd_address)"
    by code_simp+
  from odd_length_address [of odd_address stub_hash] h show ?thesis
    by blast
qed

text \<open>
  Claim C10. An amount of \<open>2 ^ 256\<close> or more makes \<^verbatim>\<open>int_to_storage_word\<close> raise
  \<^verbatim>\<open>OverflowError\<close>. A run with such an amount issues no storage write. When the account
  encodes, its only request is the initial balance read. If that read failed \<^verbatim>\<open>main\<close>
  returns 2. If it succeeded, an exception leaves \<^verbatim>\<open>main\<close>, which returns no exit status:
  the \<^verbatim>\<open>OverflowError\<close> of the encoder, or before it the \<^verbatim>\<open>ValueError\<close> of the \<^verbatim>\<open>print\<close> of line
  105 when the balance has more than 4300 digits.
\<close>

theorem oversized_amount_run:
  assumes "2 ^ 256 \<le> amount a"
    and "run post kec a n = (r, w)"
  shows "int_to_storage_word (amount a) = Inl (OverflowError ''int too big to convert'') \<and>
     list_all (\<lambda>e. \<not> storage_write e) (log w) \<and>
     (case encode_balance_of kec (account a) of
        Inl e \<Rightarrow> r = Inl e \<and> log w = []
      | Inr cd \<Rightarrow>
          length (log w) = 1 \<and>
          is_call a ''eth_call'' (balance_params a cd) (hd (log w)) \<and>
          (case read_value (hd (log w)) of
             Inl x \<Rightarrow> r = Inr 2
           | Inr b \<Rightarrow>
               (case format_int b of
                  Inl e \<Rightarrow> r = Inl e
                | Inr s \<Rightarrow> r = Inl (OverflowError ''int too big to convert''))))"
  using assms(2)
proof (cases rule: run_cases)
  case (bad_account e)
  then show ?thesis
    using assms(1) by (simp add: int_to_storage_word_big)
next
  case (init_failed cd e0 x)
  then show ?thesis
    using assms(1) by (simp add: int_to_storage_word_big call_not_write)
next
  case (long_balance cd e0 before e)
  then show ?thesis
    using assms(1) by (simp add: int_to_storage_word_big call_not_write)
next
  case (bad_amount cd e0 before e)
  then show ?thesis
    using assms(1) by (simp add: int_to_storage_word_big call_not_write)
qed (use assms(1) in \<open>simp_all add: int_to_storage_word_big\<close>)

theorem oversized_amount_run_witness:
  "2 ^ 256 \<le> amount (test_args (2 ^ 256) 5) \<and>
   int_to_storage_word (amount (test_args (2 ^ 256) 5))
     = Inl (OverflowError ''int too big to convert'') \<and>
   list_all (\<lambda>e. \<not> storage_write e) (log (snd oversized_amount_scenario)) \<and>
   length (log (snd oversized_amount_scenario)) = 1 \<and>
   is_call (test_args (2 ^ 256) 5) ''eth_call''
     (balance_params (test_args (2 ^ 256) 5) test_call_data)
     (hd (log (snd oversized_amount_scenario))) \<and>
   map succeeded (log (snd oversized_amount_scenario)) = [True] \<and>
   read_value (hd (log (snd oversized_amount_scenario))) = Inr 0 \<and>
   fst oversized_amount_scenario = Inl (OverflowError ''int too big to convert'')"
proof -
  note ev = oversized_amount_scenario_eval [unfolded Let_def]
  have h: "2 ^ 256 \<le> amount (test_args (2 ^ 256) 5)" by (simp add: test_args_fields)
  from oversized_amount_run [OF h scenario_runs(7)] h ev show ?thesis
    by (simp add: test_args_fields test_encodings test_formats)
qed

end
